theory Spec2Isabelle
  imports Complex_Main "HOL-Library.Word" "HOL-Library.Sublist" "HOL-Library.Multiset"
begin

unbundle bit_operations_syntax

section \<open>Data model of the grid manager\<close>

text \<open>
  The embedding follows \<^verbatim>\<open>src/gridmanager.cpp\<close>: the registry (\<^verbatim>\<open>AddUser\<close>,
  \<^verbatim>\<open>AddMachine\<close>, the id overloads of \<^verbatim>\<open>RemoveUser\<close> and \<^verbatim>\<open>RemoveMachine\<close>,
  \<^verbatim>\<open>GetUser\<close>, \<^verbatim>\<open>GetMachine\<close>), the scheduler (\<^verbatim>\<open>AddJob\<close>, \<^verbatim>\<open>AddJobByUser\<close>), the
  query \<^verbatim>\<open>ApplyPredicate\<close> and the persistence (\<^verbatim>\<open>Save\<close>, \<^verbatim>\<open>Load\<close>). The tick loop
  (\<^verbatim>\<open>Update\<close>, \<^verbatim>\<open>Run\<close>), the destructor and the overloads of \<^verbatim>\<open>RemoveUser\<close> and
  \<^verbatim>\<open>RemoveMachine\<close> that search for a pointer are not embedded.

  The C++ type \<^verbatim>\<open>uint\<close> of the identifiers and counters is a 32-bit unsigned integer
  (the snapshot stores both counters with \<^verbatim>\<open>WriteUInt32\<close>), so \<open>+\<close> wraps around.
\<close>

type_synonym uint = "32 word"

text \<open>
  A \<^verbatim>\<open>Job\<close> object is only ever handled through its pointer; it is identified by its
  address. A \<^verbatim>\<open>Job*\<close> argument is a \<open>Job option\<close>, the null pointer being \<open>None\<close>.
\<close>

type_synonym Job = nat

text \<open>
  Modelled from the spec: the classes \<^verbatim>\<open>User\<close> and \<^verbatim>\<open>Machine\<close> are declared in headers
  that are not among the sources; the manager reaches them through their getters and
  \<^verbatim>\<open>SetId\<close> only. A user is its
  identifier and the rest of its state (\<open>userState\<close>, opaque). A machine is its identifier,
  the four capacity attributes read by the ranking, and the jobs it holds
  (\<^verbatim>\<open>GetJobs()\<close>, an id-ordered map to \<^verbatim>\<open>Job*\<close>). The types of the four getters are
  declared in the absent \<^verbatim>\<open>machine.h\<close>; an attribute is the number its getter returns
  (an integer or a finite \<^verbatim>\<open>double\<close>), as a real number.
\<close>

record 'u User =
  userId :: uint
  userState :: 'u

record Machine =
  machineId :: uint
  maxJobs :: real
  currentJobs :: real
  availableDiskSpace :: real
  availableRAM :: real
  jobs :: "(uint \<times> Job) list"

text \<open>
  A \<^verbatim>\<open>std::map<uint, T*>\<close> is the list of its entries in iteration order, that is
  with strictly ascending keys (\<open>is_map\<close>, the invariant of every \<^verbatim>\<open>std::map\<close>). The
  manager is the only owner of the entities it registers (its destructor and \<^verbatim>\<open>Remove*\<close>
  delete them), so an entry holds the entity itself and deleting an entity is dropping its
  entry; a null \<^verbatim>\<open>User*\<close> or \<^verbatim>\<open>Machine*\<close> argument is \<open>None\<close>. One object registered
  under two keys, or kept by the caller and changed behind the manager's back, is outside
  this representation.
\<close>

definition is_map :: "('k::linorder \<times> 'v) list \<Rightarrow> bool" where
  "is_map es = sorted_wrt (<) (map fst es)"

text \<open>\<^verbatim>\<open>m[k] = v\<close>: replaces the entry at \<open>k\<close> or inserts one in key order.\<close>

fun map_assign :: "'k::linorder \<Rightarrow> 'v \<Rightarrow> ('k \<times> 'v) list \<Rightarrow> ('k \<times> 'v) list" where
  "map_assign k v [] = [(k, v)]"
| "map_assign k v (e # es) =
     (if fst e = k then (k, v) # es
      else if k < fst e then (k, v) # e # es
      else e # map_assign k v es)"

text \<open>\<^verbatim>\<open>m.erase(m.find(k))\<close> for a key that \<^verbatim>\<open>find\<close> has found.\<close>

fun map_erase :: "'k \<Rightarrow> ('k \<times> 'v) list \<Rightarrow> ('k \<times> 'v) list" where
  "map_erase k [] = []"
| "map_erase k (e # es) = (if fst e = k then es else e # map_erase k es)"

text \<open>
  The two counters are static members of the class: one pair for the whole process,
  shared by every manager instance. They are kept apart from the per-instance fields and
  threaded through every operation that reads or writes them.
\<close>

record statics =
  lastUserId :: uint
  lastMachineId :: uint

record 'u GridManager =
  users :: "(uint \<times> 'u User) list"
  machines :: "(uint \<times> Machine) list"

definition initial_statics :: statics where
  "initial_statics = \<lparr>lastUserId = 0, lastMachineId = 0\<rparr>"

definition new_GridManager :: "'u GridManager" where
  "new_GridManager = \<lparr>users = [], machines = []\<rparr>"

section \<open>Entity registry\<close>

text \<open>
  Every operation returns its C++ return value first, then the state it leaves
  (the statics when it can write them, the manager when it can write it).
\<close>

definition AddUser ::
  "statics \<Rightarrow> 'u GridManager \<Rightarrow> 'u User option \<Rightarrow> uint \<times> statics \<times> 'u GridManager" where
  "AddUser st gm user =
     (case user of
        None \<Rightarrow> (0, st, gm)
      | Some u \<Rightarrow>
          if userId u \<noteq> 0
          then (userId u, st, gm\<lparr>users := map_assign (userId u) u (users gm)\<rparr>)
          else
            (let st' = st\<lparr>lastUserId := lastUserId st + 1\<rparr>;
                 n = lastUserId st'
             in (n, st', gm\<lparr>users := map_assign n (u\<lparr>userId := n\<rparr>) (users gm)\<rparr>)))"

definition AddMachine ::
  "statics \<Rightarrow> 'u GridManager \<Rightarrow> Machine option \<Rightarrow> uint \<times> statics \<times> 'u GridManager" where
  "AddMachine st gm machine =
     (case machine of
        None \<Rightarrow> (0, st, gm)
      | Some m \<Rightarrow>
          if machineId m \<noteq> 0
          then (machineId m, st, gm\<lparr>machines := map_assign (machineId m) m (machines gm)\<rparr>)
          else
            (let st' = st\<lparr>lastMachineId := lastMachineId st + 1\<rparr>;
                 n = lastMachineId st'
             in (n, st', gm\<lparr>machines := map_assign n (m\<lparr>machineId := n\<rparr>) (machines gm)\<rparr>)))"

text \<open>The overloads of \<^verbatim>\<open>RemoveUser\<close> and \<^verbatim>\<open>RemoveMachine\<close> that take an id.\<close>

definition RemoveUser :: "'u GridManager \<Rightarrow> uint \<Rightarrow> bool \<times> 'u GridManager" where
  "RemoveUser gm n =
     (case map_of (users gm) n of
        None \<Rightarrow> (False, gm)
      | Some u \<Rightarrow> (True, gm\<lparr>users := map_erase n (users gm)\<rparr>))"

definition RemoveMachine :: "'u GridManager \<Rightarrow> uint \<Rightarrow> bool \<times> 'u GridManager" where
  "RemoveMachine gm n =
     (case map_of (machines gm) n of
        None \<Rightarrow> (False, gm)
      | Some m \<Rightarrow> (True, gm\<lparr>machines := map_erase n (machines gm)\<rparr>))"

text \<open>\<^verbatim>\<open>GetUser\<close> and \<^verbatim>\<open>GetMachine\<close>: \<open>None\<close> is the \<^verbatim>\<open>NULL\<close> they return for an unknown id.\<close>

definition GetUser :: "'u GridManager \<Rightarrow> uint \<Rightarrow> 'u User option" where
  "GetUser gm n = map_of (users gm) n"

definition GetMachine :: "'u GridManager \<Rightarrow> uint \<Rightarrow> Machine option" where
  "GetMachine gm n = map_of (machines gm) n"

section \<open>Job scheduler\<close>

text \<open>
  The comparison handed to \<^verbatim>\<open>machineList.sort\<close> computes, for each of its two machines,
  \<^verbatim>\<open>double score = ((GetMaxJobs() - GetCurrentJobs()) + GetAvailableDiskSpace() + GetAvailableRAM())\<close>
  and returns \<^verbatim>\<open>score1 > score2\<close>. The operators \<^verbatim>\<open>-\<close> and \<^verbatim>\<open>+\<close> are those of C++ at the
  types of the getters: machine arithmetic, which rounds (on \<^verbatim>\<open>double\<close>) or wraps around
  (on unsigned integers), not the arithmetic of the real numbers. Since \<^verbatim>\<open>machine.h\<close> is
  not among the sources, the three operations are parameters of the ranking: \<open>op_minus\<close>
  is the subtraction, \<open>op_plus_disk\<close> the first addition, and \<open>op_plus_ram\<close> the second
  addition followed by the conversion of the sum to \<^verbatim>\<open>double\<close>.

  A \<^verbatim>\<open>double\<close> is the real number it denotes, so that \<^verbatim>\<open>score1 > score2\<close> is the order of
  the real numbers. A score that is infinite or not a number is outside this
  representation (on NaN \<^verbatim>\<open>>\<close> is no strict weak ordering, and \<^verbatim>\<open>std::list::sort\<close> is
  defined for strict weak orderings only).
\<close>

type_synonym double = real

record arithmetic =
  op_minus :: "real \<Rightarrow> real \<Rightarrow> real"
  op_plus_disk :: "real \<Rightarrow> real \<Rightarrow> real"
  op_plus_ram :: "real \<Rightarrow> real \<Rightarrow> double"

definition score :: "arithmetic \<Rightarrow> Machine \<Rightarrow> double" where
  "score ar m =
     op_plus_ram ar
       (op_plus_disk ar (op_minus ar (maxJobs m) (currentJobs m)) (availableDiskSpace m))
       (availableRAM m)"

definition better :: "arithmetic \<Rightarrow> Machine \<Rightarrow> Machine \<Rightarrow> bool" where
  "better ar m1 m2 = (let score1 = score ar m1; score2 = score ar m2 in score1 > score2)"

text \<open>
  \<^verbatim>\<open>std::list::sort(comp)\<close> is a stable sort. For a strict weak ordering the result of a
  stable sort is unique, so it is written here as the stable insertion sort: an element is
  put behind the elements that go before it, and in front of everything else.
\<close>

fun sort_insert :: "('a \<Rightarrow> 'a \<Rightarrow> bool) \<Rightarrow> 'a \<Rightarrow> 'a list \<Rightarrow> 'a list" where
  "sort_insert cmp x [] = [x]"
| "sort_insert cmp x (y # ys) =
     (if cmp y x then y # sort_insert cmp x ys else x # y # ys)"

fun list_sort :: "('a \<Rightarrow> 'a \<Rightarrow> bool) \<Rightarrow> 'a list \<Rightarrow> 'a list" where
  "list_sort cmp [] = []"
| "list_sort cmp (x # xs) = sort_insert cmp x (list_sort cmp xs)"

text \<open>
  The list \<^verbatim>\<open>AddJob\<close> builds from the registry and sorts: the machines in key order,
  then ranked. An element of the list stands for the \<^verbatim>\<open>Machine*\<close> of a registry entry, so
  it carries the entry's key.
\<close>

definition ranking :: "arithmetic \<Rightarrow> (uint \<times> Machine) list \<Rightarrow> (uint \<times> Machine) list" where
  "ranking ar ms = list_sort (\<lambda>e1 e2. better ar (snd e1) (snd e2)) ms"

text \<open>
  \<^verbatim>\<open>Machine::AddJob\<close>, \<^verbatim>\<open>User::CanCreateJob\<close> and \<^verbatim>\<open>User::CreatedJob\<close> are not among
  the sources. They are parameters of the operations that call them, next to the
  arithmetic \<open>ar\<close> of the ranking:
  \<open>mAddJob m j\<close> is the answer of machine \<open>m\<close> to the offer of job \<open>j\<close> and the machine as
  the call leaves it, \<open>canCreateJob u j\<close> is the answer of the user, and
  \<open>createdJob u j\<close> is the user as the notification leaves it.

  The calls an operation makes to these collaborators are recorded, in order, in the
  last component of its result.
\<close>

datatype call = CanCreateJob_call | Machine_AddJob_call uint | CreatedJob_call

text \<open>
  The loop of \<^verbatim>\<open>AddJob\<close> over the ranked list. \<open>ms\<close> is the registry; the machine an
  offer was made to is written back under its key as the call left it. In a \<^verbatim>\<open>std::map\<close>
  every machine is listed once and an offer changes only the machine it is made to, so the
  machine in the list is the machine as it is when its turn comes. The line the loop writes
  to the console log on success is no part of the state.
\<close>

fun offer ::
  "(Machine \<Rightarrow> Job \<Rightarrow> bool \<times> Machine) \<Rightarrow> Job \<Rightarrow> (uint \<times> Machine) list \<Rightarrow>
     (uint \<times> Machine) list \<Rightarrow> bool \<times> (uint \<times> Machine) list \<times> call list" where
  "offer mAddJob job [] ms = (False, ms, [])"
| "offer mAddJob job (e # es) ms =
     (let (accepted, m') = mAddJob (snd e) job;
          ms' = map_assign (fst e) m' ms
      in if accepted then (True, ms', [Machine_AddJob_call (fst e)])
         else (case offer mAddJob job es ms' of
                 (r, ms'', calls) \<Rightarrow> (r, ms'', Machine_AddJob_call (fst e) # calls)))"

definition AddJob ::
  "arithmetic \<Rightarrow> (Machine \<Rightarrow> Job \<Rightarrow> bool \<times> Machine) \<Rightarrow> 'u GridManager \<Rightarrow> Job option \<Rightarrow>
     bool \<times> 'u GridManager \<times> call list" where
  "AddJob ar mAddJob gm job =
     (case job of
        None \<Rightarrow> (False, gm, [])
      | Some j \<Rightarrow>
          (let machineList = ranking ar (machines gm)
           in case offer mAddJob j machineList (machines gm) of
                (r, ms', calls) \<Rightarrow> (r, gm\<lparr>machines := ms'\<rparr>, calls)))"

text \<open>
  \<^verbatim>\<open>AddJobByUser\<close>. The user is the caller's object, registered or not: the third
  component of the result is that object as the operation leaves it (\<open>None\<close> for a null
  pointer); \<open>users\<close> is not touched.
\<close>

definition AddJobByUser ::
  "('u User \<Rightarrow> Job \<Rightarrow> bool) \<Rightarrow> ('u User \<Rightarrow> Job \<Rightarrow> 'u User) \<Rightarrow>
     arithmetic \<Rightarrow> (Machine \<Rightarrow> Job \<Rightarrow> bool \<times> Machine) \<Rightarrow>
     'u GridManager \<Rightarrow> 'u User option \<Rightarrow> Job option \<Rightarrow>
     bool \<times> 'u GridManager \<times> 'u User option \<times> call list" where
  "AddJobByUser canCreateJob createdJob ar mAddJob gm user job =
     (case user of
        None \<Rightarrow> (False, gm, None, [])
      | Some u \<Rightarrow>
          (case job of
             None \<Rightarrow> (False, gm, Some u, [])
           | Some j \<Rightarrow>
               if \<not> canCreateJob u j then (False, gm, Some u, [CanCreateJob_call])
               else
                 (case AddJob ar mAddJob gm (Some j) of
                    (placed, gm', calls) \<Rightarrow>
                      if \<not> placed then (False, gm', Some u, CanCreateJob_call # calls)
                      else (True, gm', Some (createdJob u j),
                            CanCreateJob_call # calls @ [CreatedJob_call]))))"

text \<open>A machine holds a job when the job is among the values of its job map.\<close>

definition holds :: "Machine \<Rightarrow> Job \<Rightarrow> bool" where
  "holds m j = (j \<in> snd ` set (jobs m))"

text \<open>The machine registered under id \<open>k\<close> holds the job.\<close>

definition holder :: "'u GridManager \<Rightarrow> Job \<Rightarrow> uint \<Rightarrow> bool" where
  "holder gm j k = (case GetMachine gm k of None \<Rightarrow> False | Some m \<Rightarrow> holds m j)"

text \<open>
  Modelled from the spec: the contract of \<^verbatim>\<open>Machine::AddJob\<close>, whose code is not among the
  sources (an accepted job lives inside the accepting machine): on each of the machines
  \<open>ms\<close>, a machine that accepts the job holds it afterwards, and a machine that refuses it
  holds it afterwards exactly when it held it before. The contract says nothing about
  which machines hold the job before the call.
\<close>

definition ownership_contract ::
  "(Machine \<Rightarrow> Job \<Rightarrow> bool \<times> Machine) \<Rightarrow> Job \<Rightarrow> (uint \<times> Machine) list \<Rightarrow> bool" where
  "ownership_contract mAddJob j ms \<longleftrightarrow>
     list_all (\<lambda>e. holds (snd (mAddJob (snd e) j)) j \<longleftrightarrow>
                    (fst (mAddJob (snd e) j) \<or> holds (snd e) j)) ms"

section \<open>Generic query\<close>

text \<open>
  The primary template of \<^verbatim>\<open>ApplyPredicate\<close>, which serves every entity kind \<open>'t\<close> that
  has no specialisation, and the three specialisations for \<^verbatim>\<open>Job\<close>, \<^verbatim>\<open>User\<close> and
  \<^verbatim>\<open>Machine\<close>.
\<close>

definition ApplyPredicate :: "('t \<Rightarrow> bool) \<Rightarrow> 'u GridManager \<Rightarrow> 't list" where
  "ApplyPredicate predicate gm = []"

definition ApplyPredicate_Job :: "(Job \<Rightarrow> bool) \<Rightarrow> 'u GridManager \<Rightarrow> Job list" where
  "ApplyPredicate_Job predicate gm =
     concat (map (\<lambda>machine. filter predicate (map snd (jobs (snd machine)))) (machines gm))"

definition ApplyPredicate_User ::
  "('u User \<Rightarrow> bool) \<Rightarrow> 'u GridManager \<Rightarrow> 'u User list" where
  "ApplyPredicate_User predicate gm = filter predicate (map snd (users gm))"

definition ApplyPredicate_Machine ::
  "(Machine \<Rightarrow> bool) \<Rightarrow> 'u GridManager \<Rightarrow> Machine list" where
  "ApplyPredicate_Machine predicate gm = filter predicate (map snd (machines gm))"

text \<open>
  An entity kind outside the three: the menu of \<^verbatim>\<open>src/menu.h\<close>, reduced to its label.
\<close>

datatype Menu = Menu string

section \<open>Persistence\<close>

text \<open>
  Modelled from the spec: \<^verbatim>\<open>ByteBuffer\<close> is not among the sources. The snapshot is a flat
  sequence of bytes; \<^verbatim>\<open>WriteUInt32\<close> appends the four bytes of its argument (least
  significant first) and \<^verbatim>\<open>ReadUInt32\<close> takes four bytes from the read position. The
  buffer is the list of its unread bytes. A read past the end has no value: \<open>None\<close>.
\<close>

type_synonym ByteBuffer = "8 word list"

definition WriteUInt32 :: "ByteBuffer \<Rightarrow> uint \<Rightarrow> ByteBuffer" where
  "WriteUInt32 bb v =
     bb @ [ucast v, ucast (drop_bit 8 v), ucast (drop_bit 16 v), ucast (drop_bit 24 v)]"

definition ReadUInt32 :: "ByteBuffer \<Rightarrow> (uint \<times> ByteBuffer) option" where
  "ReadUInt32 bb =
     (case bb of
        b0 # b1 # b2 # b3 # rest \<Rightarrow>
          Some (ucast b0 OR push_bit 8 (ucast b1) OR push_bit 16 (ucast b2)
                  OR push_bit 24 (ucast b3), rest)
      | _ \<Rightarrow> None)"

text \<open>
  \<^verbatim>\<open>User::Save\<close>, \<^verbatim>\<open>Machine::Save\<close> and the static \<^verbatim>\<open>User::Load\<close>, \<^verbatim>\<open>Machine::Load\<close>
  are parameters: \<open>uSave u\<close> are the bytes the user appends to the buffer, and
  \<open>uLoad bb\<close> is the user decoded at the read position with the buffer behind it
  (\<open>None\<close> when the bytes do not decode).
\<close>

definition Save ::
  "('u User \<Rightarrow> 8 word list) \<Rightarrow> (Machine \<Rightarrow> 8 word list) \<Rightarrow>
     statics \<Rightarrow> 'u GridManager \<Rightarrow> ByteBuffer \<Rightarrow> bool \<times> ByteBuffer" where
  "Save uSave mSave st gm bb =
     (let bb1 = WriteUInt32 bb (lastUserId st);
          bb2 = WriteUInt32 bb1 (lastMachineId st);
          bb3 = WriteUInt32 bb2 (of_nat (length (users gm)));
          bb4 = fold (\<lambda>user b. b @ uSave (snd user)) (users gm) bb3;
          bb5 = WriteUInt32 bb4 (of_nat (length (machines gm)));
          bb6 = fold (\<lambda>machine b. b @ mSave (snd machine)) (machines gm) bb5
      in (True, bb6))"

text \<open>The two loops of \<^verbatim>\<open>Load\<close>; the first argument after the decoder counts the rounds left.\<close>

fun load_users ::
  "(ByteBuffer \<Rightarrow> ('u User \<times> ByteBuffer) option) \<Rightarrow> nat \<Rightarrow>
     statics \<Rightarrow> 'u GridManager \<Rightarrow> ByteBuffer \<Rightarrow>
     (statics \<times> 'u GridManager \<times> ByteBuffer) option" where
  "load_users uLoad 0 st gm bb = Some (st, gm, bb)"
| "load_users uLoad (Suc n) st gm bb =
     (case uLoad bb of
        None \<Rightarrow> None
      | Some (u, bb') \<Rightarrow>
          (case AddUser st gm (Some u) of
             (_, st', gm') \<Rightarrow> load_users uLoad n st' gm' bb'))"

fun load_machines ::
  "(ByteBuffer \<Rightarrow> (Machine \<times> ByteBuffer) option) \<Rightarrow> nat \<Rightarrow>
     statics \<Rightarrow> 'u GridManager \<Rightarrow> ByteBuffer \<Rightarrow>
     (statics \<times> 'u GridManager \<times> ByteBuffer) option" where
  "load_machines mLoad 0 st gm bb = Some (st, gm, bb)"
| "load_machines mLoad (Suc n) st gm bb =
     (case mLoad bb of
        None \<Rightarrow> None
      | Some (m, bb') \<Rightarrow>
          (case AddMachine st gm (Some m) of
             (_, st', gm') \<Rightarrow> load_machines mLoad n st' gm' bb'))"

text \<open>
  \<^verbatim>\<open>Load\<close> is a static member: it reads no manager. It returns the manager it builds,
  the statics as it leaves them, and the buffer behind the snapshot.
\<close>

definition Load ::
  "(ByteBuffer \<Rightarrow> ('u User \<times> ByteBuffer) option) \<Rightarrow>
     (ByteBuffer \<Rightarrow> (Machine \<times> ByteBuffer) option) \<Rightarrow>
     statics \<Rightarrow> ByteBuffer \<Rightarrow> ('u GridManager \<times> statics \<times> ByteBuffer) option" where
  "Load uLoad mLoad st bb =
     (case ReadUInt32 bb of
        None \<Rightarrow> None
      | Some (a, bb1) \<Rightarrow>
     (case ReadUInt32 bb1 of
        None \<Rightarrow> None
      | Some (b, bb2) \<Rightarrow>
     (case ReadUInt32 bb2 of
        None \<Rightarrow> None
      | Some (usersCount, bb3) \<Rightarrow>
     (case load_users uLoad (unat usersCount)
             (st\<lparr>lastUserId := a, lastMachineId := b\<rparr>) new_GridManager bb3 of
        None \<Rightarrow> None
      | Some (st1, gm1, bb4) \<Rightarrow>
     (case ReadUInt32 bb4 of
        None \<Rightarrow> None
      | Some (machinesCount, bb5) \<Rightarrow>
     (case load_machines mLoad (unat machinesCount) st1 gm1 bb5 of
        None \<Rightarrow> None
      | Some (st2, gm2, bb6) \<Rightarrow> Some (gm2, st2, bb6)))))))"

text \<open>
  The registry invariant: a \<^verbatim>\<open>std::map\<close> in which every entry is keyed by the id its
  entity carries and no key is 0, the sentinel that is never a live id. \<^verbatim>\<open>AddUser\<close> and
  \<^verbatim>\<open>AddMachine\<close> key every entry by the entity's id.
\<close>

definition users_ok :: "(uint \<times> 'u User) list \<Rightarrow> bool" where
  "users_ok es \<longleftrightarrow> is_map es \<and> list_all (\<lambda>e. fst e \<noteq> 0 \<and> userId (snd e) = fst e) es"

definition machines_ok :: "(uint \<times> Machine) list \<Rightarrow> bool" where
  "machines_ok es \<longleftrightarrow> is_map es \<and> list_all (\<lambda>e. fst e \<noteq> 0 \<and> machineId (snd e) = fst e) es"

section \<open>Sequences of registrations and the counter bound\<close>

text \<open>
  A sequence of \<^verbatim>\<open>AddUser\<close> (or \<^verbatim>\<open>AddMachine\<close>) calls on non-null entities, one after
  the other, with the ids they return in call order.
\<close>

fun AddUser_calls ::
  "statics \<Rightarrow> 'u GridManager \<Rightarrow> 'u User list \<Rightarrow> uint list \<times> statics \<times> 'u GridManager" where
  "AddUser_calls st gm [] = ([], st, gm)"
| "AddUser_calls st gm (u # us) =
     (case AddUser st gm (Some u) of
        (n, st', gm') \<Rightarrow>
          (case AddUser_calls st' gm' us of
             (ns, st'', gm'') \<Rightarrow> (n # ns, st'', gm'')))"

fun AddMachine_calls ::
  "statics \<Rightarrow> 'u GridManager \<Rightarrow> Machine list \<Rightarrow> uint list \<times> statics \<times> 'u GridManager" where
  "AddMachine_calls st gm [] = ([], st, gm)"
| "AddMachine_calls st gm (m # ms) =
     (case AddMachine st gm (Some m) of
        (n, st', gm') \<Rightarrow>
          (case AddMachine_calls st' gm' ms of
             (ns, st'', gm'') \<Rightarrow> (n # ns, st'', gm'')))"

text \<open>Each counter is at least every id present in its collection.\<close>

definition counters_bound :: "statics \<Rightarrow> 'u GridManager \<Rightarrow> bool" where
  "counters_bound st gm \<longleftrightarrow>
     list_all (\<lambda>e. fst e \<le> lastUserId st) (users gm) \<and>
     list_all (\<lambda>e. fst e \<le> lastMachineId st) (machines gm)"

section \<open>Sample entities and collaborators\<close>

text \<open>
  Concrete users, machines and collaborator behaviours on which the theorems below are
  exercised. A sample user carries a flag as its state: whether it may create jobs.
\<close>

definition sample_user :: "uint \<Rightarrow> bool \<Rightarrow> bool User" where
  "sample_user n allowed = \<lparr>userId = n, userState = allowed\<rparr>"

definition sample_machine :: "uint \<Rightarrow> real \<Rightarrow> real \<Rightarrow> real \<Rightarrow> Machine" where
  "sample_machine n slots disk ram =
     \<lparr>machineId = n, maxJobs = slots, currentJobs = 0, availableDiskSpace = disk,
      availableRAM = ram, jobs = []\<rparr>"

text \<open>
  Modelled from the spec: a machine behaviour of the kind the spec names for the absent
  \<^verbatim>\<open>Machine::AddJob\<close> (acceptance against the machine's own remaining capacity): a machine
  with a free slot takes the job, a full machine refuses it and stays as it is. A user
  behaviour for the absent \<^verbatim>\<open>User\<close> methods: the user's flag is the answer of
  \<^verbatim>\<open>CanCreateJob\<close>, and \<^verbatim>\<open>CreatedJob\<close> clears it. They serve as instances only.
\<close>

definition capacity_AddJob :: "Machine \<Rightarrow> Job \<Rightarrow> bool \<times> Machine" where
  "capacity_AddJob m j =
     (if currentJobs m < maxJobs m
      then (True, m\<lparr>currentJobs := currentJobs m + 1, jobs := map_assign (of_nat j) j (jobs m)\<rparr>)
      else (False, m))"

text \<open>A machine that refuses every job and stays as it is.\<close>

definition refusing_AddJob :: "Machine \<Rightarrow> Job \<Rightarrow> bool \<times> Machine" where
  "refusing_AddJob m j = (False, m)"

text \<open>
  The arithmetic of the sample machines. Their attributes are small whole numbers, with
  no more current jobs than slots; on these the C++ operators compute the exact difference
  and sums, whether the getters return unsigned integers or \<^verbatim>\<open>double\<close>s.
\<close>

definition exact_arithmetic :: arithmetic where
  "exact_arithmetic = \<lparr>op_minus = (-), op_plus_disk = (+), op_plus_ram = (+)\<rparr>"

definition flag_CanCreateJob :: "bool User \<Rightarrow> Job \<Rightarrow> bool" where
  "flag_CanCreateJob u j = userState u"

definition flag_CreatedJob :: "bool User \<Rightarrow> Job \<Rightarrow> bool User" where
  "flag_CreatedJob u j = u\<lparr>userState := False\<rparr>"

text \<open>
  Modelled from the spec: encodings for the sample entities, in place of the absent
  \<^verbatim>\<open>Save\<close> and \<^verbatim>\<open>Load\<close> of \<^verbatim>\<open>User\<close> and \<^verbatim>\<open>Machine\<close>. A user is its id and its flag; a
  machine is its id (the decoder restores an idle machine without capacity). They serve as
  instances only.
\<close>

definition sample_uSave :: "bool User \<Rightarrow> 8 word list" where
  "sample_uSave u = WriteUInt32 [] (userId u) @ [if userState u then 1 else 0]"

definition sample_uLoad :: "ByteBuffer \<Rightarrow> (bool User \<times> ByteBuffer) option" where
  "sample_uLoad bb =
     (case ReadUInt32 bb of
        None \<Rightarrow> None
      | Some (n, bb') \<Rightarrow>
          (case bb' of
             [] \<Rightarrow> None
           | b # bb'' \<Rightarrow> Some (sample_user n (b \<noteq> 0), bb'')))"

definition sample_mSave :: "Machine \<Rightarrow> 8 word list" where
  "sample_mSave m = WriteUInt32 [] (machineId m)"

definition sample_mLoad :: "ByteBuffer \<Rightarrow> (Machine \<times> ByteBuffer) option" where
  "sample_mLoad bb =
     (case ReadUInt32 bb of
        None \<Rightarrow> None
      | Some (n, bb') \<Rightarrow> Some (sample_machine n 0 0 0, bb'))"

section \<open>Facts about the map operations\<close>

lemma map_of_map_assign: "map_of (map_assign k v es) = (map_of es)(k \<mapsto> v)"
  by (induction es) (auto simp: fun_eq_iff)

lemma keys_map_assign: "fst ` set (map_assign k v es) = insert k (fst ` set es)"
  by (induction es) auto

lemma is_map_Cons: "is_map (e # es) \<longleftrightarrow> (\<forall>x\<in>set es. fst e < fst x) \<and> is_map es"
  by (auto simp: is_map_def)

lemma is_map_Nil: "is_map []"
  by (simp add: is_map_def)

lemma is_map_map_assign: "is_map es \<Longrightarrow> is_map (map_assign k v es)"
proof (induction es)
  case Nil
  show ?case by (simp add: is_map_def)
next
  case (Cons e es)
  have "fst e < k \<Longrightarrow> \<forall>x\<in>set (map_assign k v es). fst e < fst x"
  proof
    fix x assume lt: "fst e < k" and x: "x \<in> set (map_assign k v es)"
    from x have "fst x \<in> insert k (fst ` set es)"
      using keys_map_assign [of k v es] by blast
    with lt Cons.prems show "fst e < fst x"
      by (auto simp: is_map_Cons)
  qed
  with Cons show ?case
    by (auto simp: is_map_Cons)
qed

lemma map_assign_same_keys:
  "is_map es \<Longrightarrow> k \<in> fst ` set es \<Longrightarrow> map fst (map_assign k v es) = map fst es"
  by (induction es) (auto simp: is_map_Cons)

lemma map_of_fresh: "k \<notin> fst ` set es \<Longrightarrow> map_of es k = None"
  by (simp add: map_of_eq_None_iff)

lemma keys_map_erase: "is_map es \<Longrightarrow> fst ` set (map_erase k es) = fst ` set es - {k}"
proof (induction es)
  case Nil
  show ?case by simp
next
  case (Cons e es)
  show ?case
  proof (cases "fst e = k")
    case True
    with Cons.prems have "k \<notin> fst ` set es"
      by (auto simp: is_map_Cons)
    with True show ?thesis by auto
  next
    case False
    with Cons show ?thesis
      by (auto simp: is_map_Cons)
  qed
qed

lemma set_map_erase: "set (map_erase k es) \<subseteq> set es"
  by (induction es) auto

lemma is_map_map_erase: "is_map es \<Longrightarrow> is_map (map_erase k es)"
proof (induction es)
  case Nil
  show ?case by (simp add: is_map_def)
next
  case (Cons e es)
  have "set (map_erase k es) \<subseteq> set es"
    by (rule set_map_erase)
  with Cons show ?case
    by (auto simp: is_map_Cons)
qed

lemma map_of_map_erase:
  "is_map es \<Longrightarrow> map_of (map_erase k es) = (map_of es)(k := None)"
proof (induction es)
  case Nil
  show ?case by simp
next
  case (Cons e es)
  show ?case
  proof (cases "fst e = k")
    case True
    with Cons.prems have "k \<notin> fst ` set es"
      by (auto simp: is_map_Cons)
    then have "map_of es k = None"
      by (rule map_of_fresh)
    with True show ?thesis
      by (cases e) (auto simp: fun_eq_iff)
  next
    case False
    with Cons show ?thesis
      by (cases e) (auto simp: is_map_Cons fun_eq_iff)
  qed
qed

lemma map_of_Some_key: "map_of es k = Some y \<Longrightarrow> k \<in> fst ` set es"
  by (force dest: map_of_SomeD)

lemma map_assign_present:
  "is_map es \<Longrightarrow> map_of es k = Some y \<Longrightarrow> map fst (map_assign k v es) = map fst es"
  by (rule map_assign_same_keys) (auto dest: map_of_Some_key)

section \<open>Registration under a preset id\<close>

text \<open>
  C7. A null argument makes \<^verbatim>\<open>AddUser\<close> and \<^verbatim>\<open>AddMachine\<close> return the sentinel 0 and
  leave the counters and the manager as they were. An entity whose id is a nonzero \<open>n\<close> is
  stored under \<open>n\<close> as it is and \<open>n\<close> is returned, whatever the registry held at \<open>n\<close>
  before: the lookup at \<open>n\<close> now yields the new entity, every other key keeps its entry,
  the counters do not move, and when \<open>n\<close> was taken the set of keys is the same (the old
  entry is replaced, nothing is reported).
\<close>

theorem Add_preset_id:
  "AddUser st gm None = (0, st, gm) \<and>
   AddMachine st gm None = (0, st, gm) \<and>
   (userId u \<noteq> 0 \<longrightarrow>
      (case AddUser st gm (Some u) of (r, st', gm') \<Rightarrow>
         r = userId u \<and> st' = st \<and> machines gm' = machines gm \<and>
         GetUser gm' (userId u) = Some u \<and>
         (\<forall>k. k \<noteq> userId u \<longrightarrow> GetUser gm' k = GetUser gm k) \<and>
         fst ` set (users gm') = insert (userId u) (fst ` set (users gm)) \<and>
         (is_map (users gm) \<and> GetUser gm (userId u) \<noteq> None \<longrightarrow>
            map fst (users gm') = map fst (users gm)))) \<and>
   (machineId m \<noteq> 0 \<longrightarrow>
      (case AddMachine st gm (Some m) of (r, st', gm') \<Rightarrow>
         r = machineId m \<and> st' = st \<and> users gm' = users gm \<and>
         GetMachine gm' (machineId m) = Some m \<and>
         (\<forall>k. k \<noteq> machineId m \<longrightarrow> GetMachine gm' k = GetMachine gm k) \<and>
         fst ` set (machines gm') = insert (machineId m) (fst ` set (machines gm)) \<and>
         (is_map (machines gm) \<and> GetMachine gm (machineId m) \<noteq> None \<longrightarrow>
            map fst (machines gm') = map fst (machines gm))))"
  by (auto simp: AddUser_def AddMachine_def GetUser_def GetMachine_def map_of_map_assign
        keys_map_assign map_assign_present)

text \<open>
  A registry that holds users 3 and 7 and machine 2: registering another user whose id is 7
  replaces the entry at 7, and registering another machine whose id is 2 replaces the
  entry at 2.
\<close>

theorem Add_preset_id_witness:
  "userId (sample_user 7 True) \<noteq> 0 \<and>
   machineId (sample_machine 2 4 0 0) \<noteq> 0 \<and>
   is_map [(3 :: uint, sample_user 3 False), (7, sample_user 7 False)] \<and>
   is_map [(2 :: uint, sample_machine 2 1 0 0)] \<and>
   AddUser initial_statics
      \<lparr>users = [(3, sample_user 3 False), (7, sample_user 7 False)],
       machines = [(2, sample_machine 2 1 0 0)]\<rparr>
      (Some (sample_user 7 True))
    = (7, initial_statics,
       \<lparr>users = [(3, sample_user 3 False), (7, sample_user 7 True)],
        machines = [(2, sample_machine 2 1 0 0)]\<rparr>) \<and>
   AddMachine initial_statics
      \<lparr>users = [(3, sample_user 3 False), (7, sample_user 7 False)],
       machines = [(2, sample_machine 2 1 0 0)]\<rparr>
      (Some (sample_machine 2 4 0 0))
    = (2, initial_statics,
       \<lparr>users = [(3, sample_user 3 False), (7, sample_user 7 False)],
        machines = [(2, sample_machine 2 4 0 0)]\<rparr>)"
  using Add_preset_id [of initial_statics
      "\<lparr>users = [(3, sample_user 3 False), (7, sample_user 7 False)],
        machines = [(2, sample_machine 2 1 0 0)]\<rparr>"
      "sample_user 7 True" "sample_machine 2 4 0 0"]
  by (simp add: AddUser_def AddMachine_def is_map_def sample_user_def sample_machine_def)

section \<open>Removal and lookup\<close>

text \<open>
  C9. When the manager holds an entity under id \<open>n\<close>, \<^verbatim>\<open>RemoveUser(n)\<close> (and likewise
  \<^verbatim>\<open>RemoveMachine(n)\<close>) returns true and the entity is gone: \<^verbatim>\<open>GetUser(n)\<close> is then
  \<^verbatim>\<open>NULL\<close>, every other id keeps its entity, and a second \<^verbatim>\<open>RemoveUser(n)\<close> returns false
  and leaves the manager as it is. For an id the manager does not hold, the lookup returns
  \<^verbatim>\<open>NULL\<close> (a value of the result type, not an error) and the removal returns false and
  changes nothing.
\<close>

theorem Remove_then_absent:
  "(is_map (users gm) \<and> GetUser gm n = Some u \<longrightarrow>
      (case RemoveUser gm n of (r, gm') \<Rightarrow>
         r \<and> GetUser gm' n = None \<and> n \<notin> fst ` set (users gm') \<and>
         (\<forall>k. k \<noteq> n \<longrightarrow> GetUser gm' k = GetUser gm k) \<and>
         machines gm' = machines gm \<and>
         RemoveUser gm' n = (False, gm'))) \<and>
   (is_map (machines gm) \<and> GetMachine gm n = Some m \<longrightarrow>
      (case RemoveMachine gm n of (r, gm') \<Rightarrow>
         r \<and> GetMachine gm' n = None \<and> n \<notin> fst ` set (machines gm') \<and>
         (\<forall>k. k \<noteq> n \<longrightarrow> GetMachine gm' k = GetMachine gm k) \<and>
         users gm' = users gm \<and>
         RemoveMachine gm' n = (False, gm'))) \<and>
   (n \<notin> fst ` set (users gm) \<longrightarrow> GetUser gm n = None \<and> RemoveUser gm n = (False, gm)) \<and>
   (n \<notin> fst ` set (machines gm) \<longrightarrow>
      GetMachine gm n = None \<and> RemoveMachine gm n = (False, gm))"
  by (auto simp: RemoveUser_def RemoveMachine_def GetUser_def GetMachine_def
        map_of_map_erase keys_map_erase map_of_fresh)

text \<open>
  A manager with users 3 and 7 and machine 3: id 3 is removed from both collections,
  id 9 is unknown to both.
\<close>

theorem Remove_then_absent_witness:
  "is_map [(3 :: uint, sample_user 3 False), (7, sample_user 7 False)] \<and>
   is_map [(3 :: uint, sample_machine 3 1 0 0)] \<and>
   GetUser \<lparr>users = [(3, sample_user 3 False), (7, sample_user 7 False)],
       machines = [(3, sample_machine 3 1 0 0)]\<rparr> 3 = Some (sample_user 3 False) \<and>
   GetMachine \<lparr>users = [(3, sample_user 3 False), (7, sample_user 7 False)],
       machines = [(3, sample_machine 3 1 0 0)]\<rparr> 3 = Some (sample_machine 3 1 0 0) \<and>
   RemoveUser \<lparr>users = [(3, sample_user 3 False), (7, sample_user 7 False)],
       machines = [(3, sample_machine 3 1 0 0)]\<rparr> 3
     = (True, \<lparr>users = [(7, sample_user 7 False)], machines = [(3, sample_machine 3 1 0 0)]\<rparr>) \<and>
   RemoveUser \<lparr>users = [(7, sample_user 7 False)], machines = [(3, sample_machine 3 1 0 0)]\<rparr> 3
     = (False, \<lparr>users = [(7, sample_user 7 False)], machines = [(3, sample_machine 3 1 0 0)]\<rparr>) \<and>
   GetUser \<lparr>users = [(7, sample_user 7 False)], machines = [(3, sample_machine 3 1 0 0)]\<rparr> 3
     = None \<and>
   RemoveMachine \<lparr>users = [(3, sample_user 3 False), (7, sample_user 7 False)],
       machines = [(3, sample_machine 3 1 0 0)]\<rparr> 3
     = (True, \<lparr>users = [(3, sample_user 3 False), (7, sample_user 7 False)], machines = []\<rparr>) \<and>
   (9 :: uint) \<notin> fst ` set [(3 :: uint, sample_user 3 False), (7, sample_user 7 False)] \<and>
   (9 :: uint) \<notin> fst ` set [(3 :: uint, sample_machine 3 1 0 0)] \<and>
   GetUser \<lparr>users = [(3, sample_user 3 False), (7, sample_user 7 False)],
       machines = [(3, sample_machine 3 1 0 0)]\<rparr> 9 = None \<and>
   GetMachine \<lparr>users = [(3, sample_user 3 False), (7, sample_user 7 False)],
       machines = [(3, sample_machine 3 1 0 0)]\<rparr> 9 = None"
  using
    Remove_then_absent [of
      "\<lparr>users = [(3, sample_user 3 False), (7, sample_user 7 False)],
        machines = [(3, sample_machine 3 1 0 0)]\<rparr>" 3
      "sample_user 3 False" "sample_machine 3 1 0 0"]
    Remove_then_absent [of
      "\<lparr>users = [(3, sample_user 3 False), (7, sample_user 7 False)],
        machines = [(3, sample_machine 3 1 0 0)]\<rparr>" 9]
  by (simp add: RemoveUser_def RemoveMachine_def GetUser_def GetMachine_def is_map_def)

section \<open>The generic query on an unsupported kind\<close>

text \<open>
  C6, as the code has it. For an entity kind without a specialisation the primary
  template of \<^verbatim>\<open>ApplyPredicate\<close> returns the empty vector, for every predicate and every
  manager: the very value the three specialisations return when nothing matches. The
  result type has no other value to report a failure with.
\<close>

theorem ApplyPredicate_unsupported_empty:
  "ApplyPredicate p gm = [] \<and>
   ApplyPredicate_User (\<lambda>u. False) gm = [] \<and>
   ApplyPredicate_Machine (\<lambda>m. False) gm = [] \<and>
   ApplyPredicate_Job (\<lambda>j. False) gm = []"
  by (simp add: ApplyPredicate_def ApplyPredicate_User_def ApplyPredicate_Machine_def
        ApplyPredicate_Job_def)

text \<open>
  The claim asks for an outcome that differs from the no-matches outcome. On a manager
  with one user and one machine, the query for menus with a predicate that holds
  everywhere and the query for users with a predicate that holds for no registered user
  both return the empty vector.
\<close>

theorem ApplyPredicate_unsupported_counterexample:
  "ApplyPredicate (\<lambda>menu :: Menu. True)
      \<lparr>users = [(1, sample_user 1 True)], machines = [(1, sample_machine 1 2 0 0)]\<rparr> = [] \<and>
   ApplyPredicate_User (\<lambda>u. userId u = 2)
      \<lparr>users = [(1, sample_user 1 True)], machines = [(1, sample_machine 1 2 0 0)]\<rparr> = []"
  by (simp add: ApplyPredicate_def ApplyPredicate_User_def sample_user_def)

section \<open>Ids handed out by the counters\<close>

lemma AddUser_zero:
  "userId u = 0 \<Longrightarrow>
   AddUser st gm (Some u) =
     (lastUserId st + 1, st\<lparr>lastUserId := lastUserId st + 1\<rparr>,
      gm\<lparr>users := map_assign (lastUserId st + 1) (u\<lparr>userId := lastUserId st + 1\<rparr>) (users gm)\<rparr>)"
  by (simp add: AddUser_def Let_def)

lemma AddMachine_zero:
  "machineId m = 0 \<Longrightarrow>
   AddMachine st gm (Some m) =
     (lastMachineId st + 1, st\<lparr>lastMachineId := lastMachineId st + 1\<rparr>,
      gm\<lparr>machines :=
            map_assign (lastMachineId st + 1) (m\<lparr>machineId := lastMachineId st + 1\<rparr>)
              (machines gm)\<rparr>)"
  by (simp add: AddMachine_def Let_def)

lemma unat_counter_plus:
  fixes c :: uint
  shows "unat c + k < 2 ^ 32 \<Longrightarrow> unat (c + of_nat k) = unat c + k"
  by (simp add: unat_word_ariths unat_of_nat)

lemma counter_ids_increasing:
  fixes c :: uint
  assumes "unat c + n < 2 ^ 32"
  shows "sorted_wrt (<) (map (\<lambda>i. c + of_nat (Suc i)) [0..<n])"
proof -
  have "c + of_nat (Suc i) < c + of_nat (Suc j)" if "i < j" and "j < n" for i j
  proof -
    from that assms have "unat c + Suc i < 2 ^ 32" and "unat c + Suc j < 2 ^ 32"
      by simp_all
    then have "unat (c + of_nat (Suc i)) = unat c + Suc i"
      and "unat (c + of_nat (Suc j)) = unat c + Suc j"
      by (simp_all only: unat_counter_plus)
    with that show ?thesis
      by (simp only: word_less_nat_alt)
  qed
  then show ?thesis
    by (simp add: sorted_wrt_iff_nth_less del: of_nat_Suc)
qed

lemma counter_succ_unat:
  fixes c :: uint
  shows "unat c + Suc n < 2 ^ 32 \<Longrightarrow> unat (c + 1) = unat c + 1"
  using unat_counter_plus [of c 1] by simp

lemma counter_id_fresh:
  fixes c :: uint
  assumes "unat c + Suc n < 2 ^ 32"
  shows "c + 1 \<notin> set (map (\<lambda>j. c + 1 + of_nat (Suc j)) [0..<n])"
proof
  assume "c + 1 \<in> set (map (\<lambda>j. c + 1 + of_nat (Suc j)) [0..<n])"
  then obtain j where j: "j < n" and eq: "c + 1 = c + 1 + of_nat (Suc j)"
    by auto
  from assms have c1: "unat (c + 1) = unat c + 1"
    by (rule counter_succ_unat)
  with assms j have "unat (c + 1) + Suc j < 2 ^ 32"
    by simp
  then have "unat (c + 1 + of_nat (Suc j)) = unat (c + 1) + Suc j"
    by (rule unat_counter_plus)
  with eq show False
    by simp
qed

lemma AddUser_calls_ids:
  "\<forall>u\<in>set us. userId u = 0 \<Longrightarrow>
   fst (AddUser_calls st gm us) = map (\<lambda>i. lastUserId st + of_nat (Suc i)) [0..<length us] \<and>
   lastUserId (fst (snd (AddUser_calls st gm us))) = lastUserId st + of_nat (length us) \<and>
   lastMachineId (fst (snd (AddUser_calls st gm us))) = lastMachineId st"
proof (induction us arbitrary: st gm)
  case Nil
  show ?case by simp
next
  case (Cons u us)
  let ?st = "st\<lparr>lastUserId := lastUserId st + 1\<rparr>"
  let ?gm = "gm\<lparr>users := map_assign (lastUserId st + 1) (u\<lparr>userId := lastUserId st + 1\<rparr>) (users gm)\<rparr>"
  from Cons.prems have u: "userId u = 0" and us: "\<forall>u\<in>set us. userId u = 0"
    by simp_all
  have ih: "fst (AddUser_calls ?st ?gm us) = map (\<lambda>i. lastUserId ?st + of_nat (Suc i)) [0..<length us] \<and>
   lastUserId (fst (snd (AddUser_calls ?st ?gm us))) = lastUserId ?st + of_nat (length us) \<and>
   lastMachineId (fst (snd (AddUser_calls ?st ?gm us))) = lastMachineId ?st"
    by (rule Cons.IH [OF us])
  from ih show ?case
    by (simp add: AddUser_zero [OF u] split_beta map_upt_Suc add.assoc del: upt_Suc)
qed

lemma AddUser_calls_frame:
  "k \<notin> set (fst (AddUser_calls st gm us)) \<Longrightarrow>
   GetUser (snd (snd (AddUser_calls st gm us))) k = GetUser gm k"
proof (induction us arbitrary: st gm)
  case Nil
  show ?case by simp
next
  case (Cons u us)
  obtain n st' gm' where a: "AddUser st gm (Some u) = (n, st', gm')"
    by (cases "AddUser st gm (Some u)")
  from Cons.prems a have k: "k \<noteq> n" and rest: "k \<notin> set (fst (AddUser_calls st' gm' us))"
    by (simp_all add: split_beta)
  from a k have "GetUser gm' k = GetUser gm k"
    by (auto simp: AddUser_def GetUser_def map_of_map_assign Let_def split: if_splits)
  with Cons.IH [OF rest] a show ?case
    by (simp add: split_beta)
qed

lemma AddUser_calls_stamped:
  assumes "\<forall>u\<in>set us. userId u = 0" and "unat (lastUserId st) + length us < 2 ^ 32"
    and "i < length us"
  shows "GetUser (snd (snd (AddUser_calls st gm us))) (lastUserId st + of_nat (Suc i)) =
           Some ((us ! i)\<lparr>userId := lastUserId st + of_nat (Suc i)\<rparr>)"
  using assms
proof (induction us arbitrary: st gm i)
  case Nil
  then show ?case by simp
next
  case (Cons u us)
  let ?c = "lastUserId st"
  let ?st = "st\<lparr>lastUserId := ?c + 1\<rparr>"
  let ?gm = "gm\<lparr>users := map_assign (?c + 1) (u\<lparr>userId := ?c + 1\<rparr>) (users gm)\<rparr>"
  from Cons.prems have u: "userId u = 0" and us: "\<forall>u\<in>set us. userId u = 0"
    and bound: "unat ?c + Suc (length us) < 2 ^ 32"
    by simp_all
  have step: "AddUser_calls st gm (u # us) =
      (case AddUser_calls ?st ?gm us of (ns, st'', gm'') \<Rightarrow> ((?c + 1) # ns, st'', gm''))"
    by (simp add: AddUser_zero [OF u])
  have ids: "fst (AddUser_calls ?st ?gm us) =
      map (\<lambda>j. ?c + 1 + of_nat (Suc j)) [0..<length us]"
    using AddUser_calls_ids [OF us, of ?st ?gm] by simp
  show ?case
  proof (cases i)
    case 0
    have "?c + 1 \<notin> set (fst (AddUser_calls ?st ?gm us))"
      unfolding ids using bound by (rule counter_id_fresh)
    then have "GetUser (snd (snd (AddUser_calls ?st ?gm us))) (?c + 1) = GetUser ?gm (?c + 1)"
      by (rule AddUser_calls_frame)
    then show ?thesis
      by (simp add: 0 step split_beta GetUser_def map_of_map_assign del: AddUser_calls.simps)
  next
    case (Suc j)
    with Cons.prems have j: "j < length us"
      by simp
    from bound have "unat (lastUserId ?st) + length us < 2 ^ 32"
      by (simp add: counter_succ_unat)
    from Cons.IH [OF us this j]
    show ?thesis
      by (simp add: Suc step split_beta add.assoc del: AddUser_calls.simps)
  qed
qed

lemma AddMachine_calls_ids:
  "\<forall>m\<in>set ms. machineId m = 0 \<Longrightarrow>
   fst (AddMachine_calls st gm ms) = map (\<lambda>i. lastMachineId st + of_nat (Suc i)) [0..<length ms] \<and>
   lastMachineId (fst (snd (AddMachine_calls st gm ms))) = lastMachineId st + of_nat (length ms) \<and>
   lastUserId (fst (snd (AddMachine_calls st gm ms))) = lastUserId st"
proof (induction ms arbitrary: st gm)
  case Nil
  show ?case by simp
next
  case (Cons m ms)
  let ?st = "st\<lparr>lastMachineId := lastMachineId st + 1\<rparr>"
  let ?gm = "gm\<lparr>machines := map_assign (lastMachineId st + 1) (m\<lparr>machineId := lastMachineId st + 1\<rparr>) (machines gm)\<rparr>"
  from Cons.prems have m: "machineId m = 0" and ms: "\<forall>m\<in>set ms. machineId m = 0"
    by simp_all
  have ih: "fst (AddMachine_calls ?st ?gm ms) = map (\<lambda>i. lastMachineId ?st + of_nat (Suc i)) [0..<length ms] \<and>
   lastMachineId (fst (snd (AddMachine_calls ?st ?gm ms))) = lastMachineId ?st + of_nat (length ms) \<and>
   lastUserId (fst (snd (AddMachine_calls ?st ?gm ms))) = lastUserId ?st"
    by (rule Cons.IH [OF ms])
  from ih show ?case
    by (simp add: AddMachine_zero [OF m] split_beta map_upt_Suc add.assoc del: upt_Suc)
qed

lemma AddMachine_calls_frame:
  "k \<notin> set (fst (AddMachine_calls st gm ms)) \<Longrightarrow>
   GetMachine (snd (snd (AddMachine_calls st gm ms))) k = GetMachine gm k"
proof (induction ms arbitrary: st gm)
  case Nil
  show ?case by simp
next
  case (Cons m ms)
  obtain n st' gm' where a: "AddMachine st gm (Some m) = (n, st', gm')"
    by (cases "AddMachine st gm (Some m)")
  from Cons.prems a have k: "k \<noteq> n" and rest: "k \<notin> set (fst (AddMachine_calls st' gm' ms))"
    by (simp_all add: split_beta)
  from a k have "GetMachine gm' k = GetMachine gm k"
    by (auto simp: AddMachine_def GetMachine_def map_of_map_assign Let_def split: if_splits)
  with Cons.IH [OF rest] a show ?case
    by (simp add: split_beta)
qed

lemma AddMachine_calls_stamped:
  assumes "\<forall>m\<in>set ms. machineId m = 0" and "unat (lastMachineId st) + length ms < 2 ^ 32"
    and "i < length ms"
  shows "GetMachine (snd (snd (AddMachine_calls st gm ms))) (lastMachineId st + of_nat (Suc i)) =
           Some ((ms ! i)\<lparr>machineId := lastMachineId st + of_nat (Suc i)\<rparr>)"
  using assms
proof (induction ms arbitrary: st gm i)
  case Nil
  then show ?case by simp
next
  case (Cons m ms)
  let ?c = "lastMachineId st"
  let ?st = "st\<lparr>lastMachineId := ?c + 1\<rparr>"
  let ?gm = "gm\<lparr>machines := map_assign (?c + 1) (m\<lparr>machineId := ?c + 1\<rparr>) (machines gm)\<rparr>"
  from Cons.prems have m: "machineId m = 0" and ms: "\<forall>m\<in>set ms. machineId m = 0"
    and bound: "unat ?c + Suc (length ms) < 2 ^ 32"
    by simp_all
  have step: "AddMachine_calls st gm (m # ms) =
      (case AddMachine_calls ?st ?gm ms of (ns, st'', gm'') \<Rightarrow> ((?c + 1) # ns, st'', gm''))"
    by (simp add: AddMachine_zero [OF m])
  have ids: "fst (AddMachine_calls ?st ?gm ms) =
      map (\<lambda>j. ?c + 1 + of_nat (Suc j)) [0..<length ms]"
    using AddMachine_calls_ids [OF ms, of ?st ?gm] by simp
  show ?case
  proof (cases i)
    case 0
    have "?c + 1 \<notin> set (fst (AddMachine_calls ?st ?gm ms))"
      unfolding ids using bound by (rule counter_id_fresh)
    then have "GetMachine (snd (snd (AddMachine_calls ?st ?gm ms))) (?c + 1) = GetMachine ?gm (?c + 1)"
      by (rule AddMachine_calls_frame)
    then show ?thesis
      by (simp add: 0 step split_beta GetMachine_def map_of_map_assign del: AddMachine_calls.simps)
  next
    case (Suc j)
    with Cons.prems have j: "j < length ms"
      by simp
    from bound have "unat (lastMachineId ?st) + length ms < 2 ^ 32"
      by (simp add: counter_succ_unat)
    from Cons.IH [OF ms this j]
    show ?thesis
      by (simp add: Suc step split_beta add.assoc del: AddMachine_calls.simps)
  qed
qed

text \<open>
  C8, as the code has it. A zero-id registration returns the counter after its increment,
  leaves the counter at that value and stores the entity stamped with it; this holds for
  every call. As long as the counter does not wrap around (it starts at \<open>c\<close>, \<open>n\<close> calls follow and
  \<open>c + n < 2\<^sup>3\<^sup>2\<close>; the calls are not interleaved with a \<^verbatim>\<open>Load\<close>), the ids returned are
  \<open>c + 1, \<dots>, c + n\<close>: strictly increasing and pairwise different, and after the last
  call each entity is found under its id, stamped with it.
\<close>

theorem zero_id_registrations:
  "(userId u = 0 \<longrightarrow>
      AddUser st gm (Some u) =
        (lastUserId st + 1, st\<lparr>lastUserId := lastUserId st + 1\<rparr>,
         gm\<lparr>users := map_assign (lastUserId st + 1) (u\<lparr>userId := lastUserId st + 1\<rparr>)
                          (users gm)\<rparr>)) \<and>
   (machineId m = 0 \<longrightarrow>
      AddMachine st gm (Some m) =
        (lastMachineId st + 1, st\<lparr>lastMachineId := lastMachineId st + 1\<rparr>,
         gm\<lparr>machines := map_assign (lastMachineId st + 1)
                             (m\<lparr>machineId := lastMachineId st + 1\<rparr>) (machines gm)\<rparr>)) \<and>
   ((\<forall>u\<in>set us. userId u = 0) \<and> unat (lastUserId st) + length us < 2 ^ 32 \<longrightarrow>
      (case AddUser_calls st gm us of (ids, st', gm') \<Rightarrow>
         ids = map (\<lambda>i. lastUserId st + of_nat (Suc i)) [0..<length us] \<and>
         sorted_wrt (<) ids \<and> distinct ids \<and>
         lastUserId st' = lastUserId st + of_nat (length us) \<and>
         (\<forall>i<length us. GetUser gm' (ids ! i) = Some ((us ! i)\<lparr>userId := ids ! i\<rparr>)))) \<and>
   ((\<forall>m\<in>set ms. machineId m = 0) \<and> unat (lastMachineId st) + length ms < 2 ^ 32 \<longrightarrow>
      (case AddMachine_calls st gm ms of (ids, st', gm') \<Rightarrow>
         ids = map (\<lambda>i. lastMachineId st + of_nat (Suc i)) [0..<length ms] \<and>
         sorted_wrt (<) ids \<and> distinct ids \<and>
         lastMachineId st' = lastMachineId st + of_nat (length ms) \<and>
         (\<forall>i<length ms.
            GetMachine gm' (ids ! i) = Some ((ms ! i)\<lparr>machineId := ids ! i\<rparr>))))"
proof (intro conjI impI)
  assume "userId u = 0"
  then show "AddUser st gm (Some u) =
        (lastUserId st + 1, st\<lparr>lastUserId := lastUserId st + 1\<rparr>,
         gm\<lparr>users := map_assign (lastUserId st + 1) (u\<lparr>userId := lastUserId st + 1\<rparr>)
                          (users gm)\<rparr>)"
    by (rule AddUser_zero)
next
  assume "machineId m = 0"
  then show "AddMachine st gm (Some m) =
        (lastMachineId st + 1, st\<lparr>lastMachineId := lastMachineId st + 1\<rparr>,
         gm\<lparr>machines := map_assign (lastMachineId st + 1)
                             (m\<lparr>machineId := lastMachineId st + 1\<rparr>) (machines gm)\<rparr>)"
    by (rule AddMachine_zero)
next
  assume h: "(\<forall>u\<in>set us. userId u = 0) \<and> unat (lastUserId st) + length us < 2 ^ 32"
  let ?ids = "map (\<lambda>i. lastUserId st + of_nat (Suc i)) [0..<length us]"
  from h have zero: "\<forall>u\<in>set us. userId u = 0"
    and bound: "unat (lastUserId st) + length us < 2 ^ 32"
    by simp_all
  have ids: "fst (AddUser_calls st gm us) = ?ids"
    and last: "lastUserId (fst (snd (AddUser_calls st gm us))) = lastUserId st + of_nat (length us)"
    using AddUser_calls_ids [OF zero, of st gm] by simp_all
  have inc: "sorted_wrt (<) ?ids"
    using bound by (rule counter_ids_increasing)
  then have dist: "distinct ?ids"
    by (simp only: strict_sorted_iff)
  have stamped: "GetUser (snd (snd (AddUser_calls st gm us))) (?ids ! i) =
      Some ((us ! i)\<lparr>userId := ?ids ! i\<rparr>)" if "i < length us" for i
    using AddUser_calls_stamped [OF zero bound that, of gm] that
    by (simp del: of_nat_Suc)
  show "case AddUser_calls st gm us of (ids, st', gm') \<Rightarrow>
         ids = ?ids \<and> sorted_wrt (<) ids \<and> distinct ids \<and>
         lastUserId st' = lastUserId st + of_nat (length us) \<and>
         (\<forall>i<length us. GetUser gm' (ids ! i) = Some ((us ! i)\<lparr>userId := ids ! i\<rparr>))"
    using ids last inc dist stamped
    by (simp only: split_beta) blast
next
  assume h: "(\<forall>m\<in>set ms. machineId m = 0) \<and> unat (lastMachineId st) + length ms < 2 ^ 32"
  let ?ids = "map (\<lambda>i. lastMachineId st + of_nat (Suc i)) [0..<length ms]"
  from h have zero: "\<forall>m\<in>set ms. machineId m = 0"
    and bound: "unat (lastMachineId st) + length ms < 2 ^ 32"
    by simp_all
  have ids: "fst (AddMachine_calls st gm ms) = ?ids"
    and last: "lastMachineId (fst (snd (AddMachine_calls st gm ms))) =
      lastMachineId st + of_nat (length ms)"
    using AddMachine_calls_ids [OF zero, of st gm] by simp_all
  have inc: "sorted_wrt (<) ?ids"
    using bound by (rule counter_ids_increasing)
  then have dist: "distinct ?ids"
    by (simp only: strict_sorted_iff)
  have stamped: "GetMachine (snd (snd (AddMachine_calls st gm ms))) (?ids ! i) =
      Some ((ms ! i)\<lparr>machineId := ?ids ! i\<rparr>)" if "i < length ms" for i
    using AddMachine_calls_stamped [OF zero bound that, of gm] that
    by (simp del: of_nat_Suc)
  show "case AddMachine_calls st gm ms of (ids, st', gm') \<Rightarrow>
         ids = ?ids \<and> sorted_wrt (<) ids \<and> distinct ids \<and>
         lastMachineId st' = lastMachineId st + of_nat (length ms) \<and>
         (\<forall>i<length ms.
            GetMachine gm' (ids ! i) = Some ((ms ! i)\<lparr>machineId := ids ! i\<rparr>))"
    using ids last inc dist stamped
    by (simp only: split_beta) blast
qed

text \<open>Two users and one machine registered in a fresh process: ids 1, 2 and id 1.\<close>

theorem zero_id_registrations_witness:
  "userId (sample_user 0 True) = 0 \<and> userId (sample_user 0 False) = 0 \<and>
   machineId (sample_machine 0 1 0 0) = 0 \<and>
   unat (lastUserId initial_statics) + length [sample_user 0 True, sample_user 0 False] < 2 ^ 32 \<and>
   unat (lastMachineId initial_statics) + length [sample_machine 0 1 0 0] < 2 ^ 32 \<and>
   AddUser_calls initial_statics (new_GridManager :: bool GridManager)
       [sample_user 0 True, sample_user 0 False]
     = ([1, 2], \<lparr>lastUserId = 2, lastMachineId = 0\<rparr>,
        \<lparr>users = [(1, sample_user 1 True), (2, sample_user 2 False)], machines = []\<rparr>) \<and>
   AddMachine_calls initial_statics (new_GridManager :: bool GridManager)
       [sample_machine 0 1 0 0]
     = ([1], \<lparr>lastUserId = 0, lastMachineId = 1\<rparr>,
        \<lparr>users = [], machines = [(1, sample_machine 1 1 0 0)]\<rparr>)"
  using zero_id_registrations [of "sample_user 0 True" initial_statics
      "new_GridManager :: bool GridManager" "sample_machine 0 1 0 0"
      "[sample_user 0 True, sample_user 0 False]" "[sample_machine 0 1 0 0]"]
  by (simp add: AddUser_def AddMachine_def initial_statics_def new_GridManager_def
        sample_user_def sample_machine_def)

text \<open>
  The claim as stated, for every sequence, fails where the 32-bit counter wraps around:
  with the counter at \<open>2\<^sup>3\<^sup>2 - 2\<close> two zero-id registrations return \<open>2\<^sup>3\<^sup>2 - 1\<close> and then 0,
  the sentinel.
\<close>

theorem zero_id_registrations_counterexample:
  "fst (AddUser_calls \<lparr>lastUserId = 0xFFFFFFFE, lastMachineId = 0\<rparr>
          (new_GridManager :: bool GridManager) [sample_user 0 True, sample_user 0 True])
     = [0xFFFFFFFF, 0] \<and>
   \<not> sorted_wrt (<)
       (fst (AddUser_calls \<lparr>lastUserId = 0xFFFFFFFE, lastMachineId = 0\<rparr>
          (new_GridManager :: bool GridManager) [sample_user 0 True, sample_user 0 True]))"
  by (simp add: AddUser_def new_GridManager_def sample_user_def)

section \<open>Ranking and the offer loop\<close>

lemma sort_insert_insort_key:
  "sort_insert (\<lambda>e1 e2. better ar (snd e1) (snd e2)) x ys =
     insort_key (\<lambda>e. - score ar (snd e)) x ys"
  by (induction ys) (auto simp: better_def)

lemma ranking_sort_key: "ranking ar ms = sort_key (\<lambda>e. - score ar (snd e)) ms"
  by (induction ms) (simp_all add: ranking_def sort_insert_insort_key)

lemma mset_ranking: "mset (ranking ar ms) = mset ms"
  by (simp add: ranking_sort_key)

lemma set_ranking: "set (ranking ar ms) = set ms"
  by (simp add: ranking_sort_key)

lemma ranking_descending:
  "sorted_wrt (\<lambda>a b. score ar (snd a) \<ge> score ar (snd b)) (ranking ar ms)"
proof -
  have "sorted (map (\<lambda>e. - score ar (snd e)) (ranking ar ms))"
    by (simp add: ranking_sort_key)
  then show ?thesis
    by (simp add: sorted_map)
qed

lemma ranking_stable:
  "filter (\<lambda>e. score ar (snd e) = s) (ranking ar ms) = filter (\<lambda>e. score ar (snd e) = s) ms"
proof -
  have "filter (\<lambda>e. - score ar (snd e) = - s) (ranking ar ms) =
      filter (\<lambda>e. - score ar (snd e) = - s) ms"
    unfolding ranking_sort_key by (rule sort_key_stable)
  then show ?thesis by simp
qed

lemma is_map_filter: "is_map es \<Longrightarrow> is_map (filter P es)"
  by (induction es) (auto simp: is_map_Cons)

lemma ranking_ties_ascending:
  "is_map ms \<Longrightarrow> is_map (filter (\<lambda>e. score ar (snd e) = s) (ranking ar ms))"
  by (simp add: ranking_stable is_map_filter)

lemma offer_reject_all:
  "\<forall>e\<in>set es. \<not> fst (f (snd e) j) \<Longrightarrow>
   offer f j es ms =
     (False, fold (\<lambda>e. map_assign (fst e) (snd (f (snd e) j))) es ms,
      map (\<lambda>e. Machine_AddJob_call (fst e)) es)"
  by (induction es arbitrary: ms) (simp_all add: split_beta)

lemma offer_first_accept:
  "\<forall>e\<in>set pre. \<not> fst (f (snd e) j) \<Longrightarrow> fst (f (snd e) j) \<Longrightarrow>
   offer f j (pre @ e # post) ms =
     (True, fold (\<lambda>e. map_assign (fst e) (snd (f (snd e) j))) (pre @ [e]) ms,
      map (\<lambda>e. Machine_AddJob_call (fst e)) (pre @ [e]))"
  by (induction pre arbitrary: ms) (simp_all add: split_beta)

lemma offer_prefix:
  "prefix (snd (snd (offer f j es ms))) (map (\<lambda>e. Machine_AddJob_call (fst e)) es)"
  by (induction es arbitrary: ms) (simp_all add: split_beta Let_def)

lemma map_of_written_back:
  "map_of (fold (\<lambda>e. map_assign (fst e) (g e)) es ms) =
     map_of ms ++ map_of (rev (map (\<lambda>e. (fst e, g e)) es))"
  by (induction es arbitrary: ms) (simp_all add: map_of_map_assign)

lemma is_map_distinct: "is_map es \<Longrightarrow> distinct (map fst es)"
  by (simp add: is_map_def strict_sorted_iff)

lemma is_map_lookup: "is_map es \<Longrightarrow> map_of es k = Some v \<longleftrightarrow> (k, v) \<in> set es"
  by (auto dest: map_of_SomeD intro: map_of_is_SomeI is_map_distinct)

lemma written_back_lookup:
  assumes "is_map ms" and "distinct (map fst xs)"
  shows "map_of (fold (\<lambda>e. map_assign (fst e) (g e)) xs ms) k = Some m \<longleftrightarrow>
           (\<exists>p\<in>set xs. fst p = k \<and> m = g p) \<or> (k \<notin> fst ` set xs \<and> (k, m) \<in> set ms)"
proof -
  let ?h = "\<lambda>e. (fst e, g e)"
  have d: "distinct (map fst (rev (map ?h xs)))"
    using assms(2) by (simp add: rev_map [symmetric] comp_def)
  have in_xs: "map_of (rev (map ?h xs)) k = Some m \<longleftrightarrow> (\<exists>p\<in>set xs. fst p = k \<and> m = g p)"
  proof
    assume "map_of (rev (map ?h xs)) k = Some m"
    then have "(k, m) \<in> set (rev (map ?h xs))"
      by (rule map_of_SomeD)
    then show "\<exists>p\<in>set xs. fst p = k \<and> m = g p"
      by auto
  next
    assume "\<exists>p\<in>set xs. fst p = k \<and> m = g p"
    then have "(k, m) \<in> set (rev (map ?h xs))"
      by force
    with d show "map_of (rev (map ?h xs)) k = Some m"
      by (rule map_of_is_SomeI)
  qed
  have none: "map_of (rev (map ?h xs)) k = None \<longleftrightarrow> k \<notin> fst ` set xs"
    by (simp add: map_of_eq_None_iff image_image)
  show ?thesis
  proof (cases "map_of (rev (map ?h xs)) k")
    case None
    with none have "k \<notin> fst ` set xs"
      by simp
    moreover from this have "\<not> (\<exists>p\<in>set xs. fst p = k \<and> m = g p)"
      by force
    moreover have "map_of (fold (\<lambda>e. map_assign (fst e) (g e)) xs ms) k = map_of ms k"
      using None by (simp add: map_of_written_back map_add_def)
    ultimately show ?thesis
      using assms(1) by (simp only: is_map_lookup) blast
  next
    case (Some v)
    with none have "k \<in> fst ` set xs"
      by (metis option.distinct(1))
    with Some in_xs show ?thesis
      by (auto simp: map_of_written_back map_add_def)
  qed
qed

lemma written_back_keys:
  "is_map ms \<Longrightarrow> fst ` set xs \<subseteq> fst ` set ms \<Longrightarrow>
   map fst (fold (\<lambda>e. map_assign (fst e) (g e)) xs ms) = map fst ms"
proof (induction xs arbitrary: ms)
  case Nil
  show ?case by simp
next
  case (Cons x xs)
  from Cons.prems have x: "fst x \<in> fst ` set ms"
    by simp
  with Cons.prems have keys: "map fst (map_assign (fst x) (g x) ms) = map fst ms"
    by (simp add: map_assign_same_keys)
  have "is_map (map_assign (fst x) (g x) ms)"
    using Cons.prems(1) by (rule is_map_map_assign)
  moreover have "fst ` set xs \<subseteq> fst ` set (map_assign (fst x) (g x) ms)"
    using Cons.prems(2) by (auto simp: keys_map_assign)
  ultimately have "map fst (fold (\<lambda>e. map_assign (fst e) (g e)) xs (map_assign (fst x) (g x) ms)) =
      map fst (map_assign (fst x) (g x) ms)"
    by (rule Cons.IH)
  with keys show ?case
    by simp
qed

lemma ranking_distinct_keys: "is_map ms \<Longrightarrow> distinct (map fst (ranking ar ms))"
proof -
  assume "is_map ms"
  then have "distinct (map fst ms)"
    by (rule is_map_distinct)
  moreover have "mset (map fst (ranking ar ms)) = mset (map fst ms)"
    by (simp add: mset_ranking)
  ultimately show ?thesis
    by (metis mset_eq_imp_distinct_iff)
qed

lemma ownership_contractD:
  "ownership_contract f j ms \<Longrightarrow> p \<in> set ms \<Longrightarrow>
   holds (snd (f (snd p) j)) j \<longleftrightarrow> fst (f (snd p) j) \<or> holds (snd p) j"
  by (simp add: ownership_contract_def list_all_iff)

lemma AddJob_accept_run:
  assumes rej: "\<forall>p\<in>set pre. \<not> fst (mAddJob (snd p) j)" and acc: "fst (mAddJob (snd e) j)"
    and dec: "ranking ar (machines gm) = pre @ e # post"
  shows "AddJob ar mAddJob gm (Some j) =
      (True, gm\<lparr>machines := fold (\<lambda>p. map_assign (fst p) (snd (mAddJob (snd p) j))) (pre @ [e]) (machines gm)\<rparr>,
       map (\<lambda>p. Machine_AddJob_call (fst p)) (pre @ [e]))"
  using rej acc
    offer_first_accept [where pre = pre and f = mAddJob and j = j and e = e and post = post
      and ms = "machines gm"]
  by (simp add: AddJob_def dec)

lemma AddJob_reject_run:
  assumes rej: "\<forall>p\<in>set (ranking ar (machines gm)). \<not> fst (mAddJob (snd p) j)"
  shows "AddJob ar mAddJob gm (Some j) =
      (False, gm\<lparr>machines := fold (\<lambda>p. map_assign (fst p) (snd (mAddJob (snd p) j))) (ranking ar (machines gm)) (machines gm)\<rparr>,
       map (\<lambda>p. Machine_AddJob_call (fst p)) (ranking ar (machines gm)))"
  using rej offer_reject_all [where es = "ranking ar (machines gm)" and f = mAddJob and j = j and ms = "machines gm"]
  by (simp add: AddJob_def)

lemma offered_lookup:
  assumes wf: "is_map (machines gm)" and dxs: "distinct (map fst xs)"
  shows "GetMachine (gm\<lparr>machines := fold (\<lambda>p. map_assign (fst p) (g p)) xs (machines gm)\<rparr>) k = Some m \<longleftrightarrow>
      (\<exists>p\<in>set xs. fst p = k \<and> m = g p) \<or> (k \<notin> fst ` set xs \<and> (k, m) \<in> set (machines gm))"
  using written_back_lookup [OF wf dxs, of g k m] by (simp add: GetMachine_def)

lemma split_keys:
  assumes "distinct (map fst (pre @ e # post))"
  shows "fst e \<notin> fst ` set pre" and "fst e \<notin> fst ` set post"
    and "fst ` set pre \<inter> fst ` set post = {}" and "distinct (map fst (pre @ [e]))"
  using assms by auto

lemma accept_post_untouched:
  assumes wf: "is_map (machines gm)" and dec: "ranking ar (machines gm) = pre @ e # post"
    and p: "p \<in> set post"
  shows "Machine_AddJob_call (fst p) \<notin> set (map (\<lambda>p. Machine_AddJob_call (fst p)) (pre @ [e])) \<and>
      GetMachine (gm\<lparr>machines := fold (\<lambda>p. map_assign (fst p) (g p)) (pre @ [e]) (machines gm)\<rparr>)
        (fst p) = Some (snd p)"
proof -
  have dk: "distinct (map fst (pre @ e # post))"
    using ranking_distinct_keys [OF wf, of ar] by (simp only: dec)
  have mem: "set (pre @ e # post) = set (machines gm)"
    using set_ranking [of ar "machines gm"] by (simp only: dec)
  from p have in_post: "fst p \<in> fst ` set post"
    by (rule imageI)
  with split_keys(2) [OF dk] have "fst p \<noteq> fst e"
    by metis
  moreover from in_post split_keys(3) [OF dk] have "fst p \<notin> fst ` set pre"
    by (metis IntI empty_iff)
  ultimately have out: "fst p \<notin> fst ` set (pre @ [e])"
    by (simp add: image_Un)
  moreover from p mem have "(fst p, snd p) \<in> set (machines gm)"
    by auto
  ultimately have "GetMachine (gm\<lparr>machines := fold (\<lambda>p. map_assign (fst p) (g p)) (pre @ [e]) (machines gm)\<rparr>)
        (fst p) = Some (snd p)"
    unfolding offered_lookup [OF wf split_keys(4) [OF dk]] by (rule_tac disjI2) (rule conjI)
  moreover from out have "Machine_AddJob_call (fst p) \<notin> set (map (\<lambda>p. Machine_AddJob_call (fst p)) (pre @ [e]))"
    by (auto simp: image_iff)
  ultimately show ?thesis
    by (rule_tac conjI)
qed

lemma accept_keys_kept:
  assumes wf: "is_map (machines gm)" and dec: "ranking ar (machines gm) = pre @ e # post"
  shows "map fst (fold (\<lambda>p. map_assign (fst p) (g p)) (pre @ [e]) (machines gm)) =
      map fst (machines gm)"
proof -
  have "set (pre @ e # post) = set (machines gm)"
    using set_ranking [of ar "machines gm"] by (simp only: dec)
  then have "fst ` set (pre @ [e]) \<subseteq> fst ` set (machines gm)"
    by auto
  with wf show ?thesis
    by (rule written_back_keys)
qed

lemma accept_acceptor_entry:
  assumes wf: "is_map (machines gm)" and dec: "ranking ar (machines gm) = pre @ e # post"
  shows "GetMachine (gm\<lparr>machines := fold (\<lambda>p. map_assign (fst p) (g p)) (pre @ [e]) (machines gm)\<rparr>)
      (fst e) = Some (g e)"
proof -
  have dk: "distinct (map fst (pre @ e # post))"
    using ranking_distinct_keys [OF wf, of ar] by (simp only: dec)
  have "\<exists>p\<in>set (pre @ [e]). fst p = fst e \<and> g e = g p"
    by simp
  then show ?thesis
    unfolding offered_lookup [OF wf split_keys(4) [OF dk]] by (rule disjI1)
qed

lemma holder_lookup:
  "is_map (machines gm) \<Longrightarrow> (k, m) \<in> set (machines gm) \<Longrightarrow> holder gm j k \<longleftrightarrow> holds m j"
  by (simp add: holder_def GetMachine_def is_map_lookup [THEN iffD2])

lemma holder_unchanged:
  assumes "\<And>m. GetMachine gm' k = Some m \<longleftrightarrow> GetMachine gm k = Some m"
  shows "holder gm' j k \<longleftrightarrow> holder gm j k"
proof -
  have "GetMachine gm' k = GetMachine gm k"
    using assms by (metis option.exhaust)
  then show ?thesis
    by (simp add: holder_def)
qed

lemma offered_holder:
  assumes wf: "is_map (machines gm)" and dxs: "distinct (map fst xs)"
    and sub: "set xs \<subseteq> set (machines gm)"
    and c: "ownership_contract f j (machines gm)"
  shows "holder (gm\<lparr>machines := fold (\<lambda>p. map_assign (fst p) (snd (f (snd p) j))) xs
                      (machines gm)\<rparr>) j k \<longleftrightarrow>
      (\<exists>p\<in>set xs. fst p = k \<and> fst (f (snd p) j)) \<or> holder gm j k"
proof (cases "k \<in> fst ` set xs")
  case True
  let ?gm' = "gm\<lparr>machines := fold (\<lambda>p. map_assign (fst p) (snd (f (snd p) j))) xs (machines gm)\<rparr>"
  from True obtain p where p: "p \<in> set xs" and k: "fst p = k"
    by auto
  from p sub have pm: "p \<in> set (machines gm)"
    by (rule subsetD [rotated])
  with k have km: "(k, snd p) \<in> set (machines gm)"
    by auto
  have only: "q = p" if "q \<in> set xs" and "fst q = k" for q
    using dxs that p k by (metis eq_key_imp_eq_value prod.collapse)
  have "\<exists>q\<in>set xs. fst q = k \<and> snd (f (snd p) j) = snd (f (snd q) j)"
    using p k by auto
  then have "GetMachine ?gm' k = Some (snd (f (snd p) j))"
    unfolding offered_lookup [OF wf dxs] by (rule disjI1)
  then have "holder ?gm' j k \<longleftrightarrow> holds (snd (f (snd p) j)) j"
    by (simp add: holder_def)
  also have "\<dots> \<longleftrightarrow> fst (f (snd p) j) \<or> holds (snd p) j"
    using c pm by (rule ownership_contractD)
  also have "holds (snd p) j \<longleftrightarrow> holder gm j k"
    using holder_lookup [OF wf km, of j] by simp
  also have "fst (f (snd p) j) \<longleftrightarrow> (\<exists>q\<in>set xs. fst q = k \<and> fst (f (snd q) j))"
    using p k only by metis
  finally show ?thesis .
next
  case False
  let ?gm' = "gm\<lparr>machines := fold (\<lambda>p. map_assign (fst p) (snd (f (snd p) j))) xs (machines gm)\<rparr>"
  have "GetMachine ?gm' k = Some m \<longleftrightarrow> GetMachine gm k = Some m" for m
    using False offered_lookup [OF wf dxs, of "\<lambda>p. snd (f (snd p) j)" k m]
    by (auto simp: GetMachine_def is_map_lookup [OF wf])
  then have "holder ?gm' j k \<longleftrightarrow> holder gm j k"
    by (rule holder_unchanged)
  moreover from False have "\<not> (\<exists>p\<in>set xs. fst p = k \<and> fst (f (snd p) j))"
    by auto
  ultimately show ?thesis
    by (simp only: simp_thms)
qed

lemma accept_owner:
  assumes wf: "is_map (machines gm)" and dec: "ranking ar (machines gm) = pre @ e # post"
    and rej: "\<forall>p\<in>set pre. \<not> fst (f (snd p) j)" and acc: "fst (f (snd e) j)"
    and c: "ownership_contract f j (machines gm)"
  shows "holder (gm\<lparr>machines := fold (\<lambda>p. map_assign (fst p) (snd (f (snd p) j)))
                (pre @ [e]) (machines gm)\<rparr>) j k \<longleftrightarrow> k = fst e \<or> holder gm j k"
proof -
  have dk: "distinct (map fst (pre @ e # post))"
    using ranking_distinct_keys [OF wf, of ar] by (simp only: dec)
  have mem: "set (pre @ e # post) = set (machines gm)"
    using set_ranking [of ar "machines gm"] by (simp only: dec)
  then have sub: "set (pre @ [e]) \<subseteq> set (machines gm)"
    by auto
  have "(\<exists>p\<in>set (pre @ [e]). fst p = k \<and> fst (f (snd p) j)) \<longleftrightarrow> k = fst e"
    using rej acc by auto
  then show ?thesis
    by (simp only: offered_holder [OF wf split_keys(4) [OF dk] sub c])
qed

lemma reject_owner:
  assumes wf: "is_map (machines gm)"
    and rej: "\<forall>p\<in>set (ranking ar (machines gm)). \<not> fst (f (snd p) j)"
    and c: "ownership_contract f j (machines gm)"
  shows "holder (gm\<lparr>machines := fold (\<lambda>p. map_assign (fst p) (snd (f (snd p) j)))
                (ranking ar (machines gm)) (machines gm)\<rparr>) j k \<longleftrightarrow> holder gm j k"
proof -
  have dxs: "distinct (map fst (ranking ar (machines gm)))"
    using wf by (rule ranking_distinct_keys)
  have sub: "set (ranking ar (machines gm)) \<subseteq> set (machines gm)"
    by (simp add: set_ranking)
  from rej have "\<not> (\<exists>p\<in>set (ranking ar (machines gm)). fst p = k \<and> fst (f (snd p) j))"
    by auto
  with offered_holder [OF wf dxs sub c, of k] show ?thesis
    by simp
qed

lemma score_stamped: "score ar (m\<lparr>machineId := n\<rparr>) = score ar m"
  by (simp add: score_def)

lemma ranking_example:
  "score ar m1 = 10 \<Longrightarrow> score ar m2 = 10 \<Longrightarrow> score ar m3 = 5 \<Longrightarrow>
   ranking ar [(k1, m1), (k2, m2), (k3, m3)] = [(k1, m1), (k2, m2), (k3, m3)]"
  by (simp add: ranking_def better_def)

lemma AddMachine_calls_three:
  assumes z: "machineId m1 = 0" "machineId m2 = 0" "machineId m3 = 0"
    and b: "unat (lastMachineId st) + 3 < 2 ^ 32"
  shows "AddMachine_calls st (new_GridManager :: 'u GridManager) [m1, m2, m3] =
     ([lastMachineId st + 1, lastMachineId st + 2, lastMachineId st + 3],
      st\<lparr>lastMachineId := lastMachineId st + 3\<rparr>,
      \<lparr>users = [],
       machines = [(lastMachineId st + 1, m1\<lparr>machineId := lastMachineId st + 1\<rparr>),
                   (lastMachineId st + 2, m2\<lparr>machineId := lastMachineId st + 2\<rparr>),
                   (lastMachineId st + 3, m3\<lparr>machineId := lastMachineId st + 3\<rparr>)]\<rparr>)"
    and "lastMachineId st + 1 < lastMachineId st + 2"
    and "lastMachineId st + 2 < lastMachineId st + 3"
proof -
  define c where "c = lastMachineId st"
  let ?gm1 = "\<lparr>users = [], machines = [(c + 1, m1\<lparr>machineId := c + 1\<rparr>)]\<rparr> :: 'u GridManager"
  let ?gm2 = "\<lparr>users = [], machines = [(c + 1, m1\<lparr>machineId := c + 1\<rparr>),
      (c + 2, m2\<lparr>machineId := c + 2\<rparr>)]\<rparr> :: 'u GridManager"
  let ?gm3 = "\<lparr>users = [], machines = [(c + 1, m1\<lparr>machineId := c + 1\<rparr>),
      (c + 2, m2\<lparr>machineId := c + 2\<rparr>), (c + 3, m3\<lparr>machineId := c + 3\<rparr>)]\<rparr> :: 'u GridManager"
  from b have u1: "unat (c + 1) = unat c + 1"
    using unat_counter_plus [of c 1] by (simp add: c_def)
  from b have u2: "unat (c + 2) = unat c + 2"
    using unat_counter_plus [of c 2] by (simp add: c_def)
  from b have u3: "unat (c + 3) = unat c + 3"
    using unat_counter_plus [of c 3] by (simp add: c_def)
  from u1 u2 have lt12: "c + 1 < c + 2"
    by (simp add: word_less_nat_alt)
  from u2 u3 have lt23: "c + 2 < c + 3"
    by (simp add: word_less_nat_alt)
  from u1 u3 have lt13: "c + 1 < c + 3"
    by (simp add: word_less_nat_alt)
  have n: "\<not> c + 2 < c + 1" "\<not> c + 3 < c + 2" "\<not> c + 3 < c + 1"
    "c + 1 \<noteq> c + 2" "c + 2 \<noteq> c + 3" "c + 1 \<noteq> c + 3"
    using lt12 lt23 lt13 by (simp_all add: not_less less_imp_le)
  have s1: "AddMachine st (new_GridManager :: 'u GridManager) (Some m1) =
      (c + 1, st\<lparr>lastMachineId := c + 1\<rparr>, ?gm1)"
    by (simp add: AddMachine_zero z new_GridManager_def c_def)
  have s2: "AddMachine (st\<lparr>lastMachineId := c + 1\<rparr>) ?gm1 (Some m2) =
      (c + 2, st\<lparr>lastMachineId := c + 2\<rparr>, ?gm2)"
    using n by (simp add: AddMachine_zero z add.commute [of 2 c])
  have s3: "AddMachine (st\<lparr>lastMachineId := c + 2\<rparr>) ?gm2 (Some m3) =
      (c + 3, st\<lparr>lastMachineId := c + 3\<rparr>, ?gm3)"
    using n by (simp add: AddMachine_zero z add.commute [of 3 c])
  have "AddMachine_calls st (new_GridManager :: 'u GridManager) [m1, m2, m3] =
      ([c + 1, c + 2, c + 3], st\<lparr>lastMachineId := c + 3\<rparr>, ?gm3)"
    by (simp only: AddMachine_calls.simps s1 s2 s3 prod.case)
  then show "AddMachine_calls st (new_GridManager :: 'u GridManager) [m1, m2, m3] =
     ([lastMachineId st + 1, lastMachineId st + 2, lastMachineId st + 3],
      st\<lparr>lastMachineId := lastMachineId st + 3\<rparr>,
      \<lparr>users = [],
       machines = [(lastMachineId st + 1, m1\<lparr>machineId := lastMachineId st + 1\<rparr>),
                   (lastMachineId st + 2, m2\<lparr>machineId := lastMachineId st + 2\<rparr>),
                   (lastMachineId st + 3, m3\<lparr>machineId := lastMachineId st + 3\<rparr>)]\<rparr>)"
    by (simp only: c_def)
  from lt12 show "lastMachineId st + 1 < lastMachineId st + 2"
    by (simp only: c_def)
  from lt23 show "lastMachineId st + 2 < lastMachineId st + 3"
    by (simp only: c_def)
qed

lemma offer_all_when_failed:
  "\<not> fst (offer f j es ms) \<Longrightarrow>
   snd (snd (offer f j es ms)) = map (\<lambda>e. Machine_AddJob_call (fst e)) es"
  by (induction es arbitrary: ms) (auto simp: split_beta Let_def split: if_splits)

lemma offer_calls_kind:
  "c \<in> set (snd (snd (offer f j es ms))) \<Longrightarrow> \<exists>k. c = Machine_AddJob_call k"
proof -
  assume c: "c \<in> set (snd (snd (offer f j es ms)))"
  have "set (snd (snd (offer f j es ms))) \<subseteq> set (map (\<lambda>e. Machine_AddJob_call (fst e)) es)"
    using offer_prefix [of f j es ms] by (rule set_mono_prefix)
  with c have "c \<in> set (map (\<lambda>e. Machine_AddJob_call (fst e)) es)"
    by (rule subsetD [rotated])
  then show ?thesis
    by auto
qed

lemma AddJob_calls_kind:
  "c \<in> set (snd (snd (AddJob ar f gm job))) \<Longrightarrow> \<exists>k. c = Machine_AddJob_call k"
  by (cases job) (auto simp: AddJob_def split_beta Let_def dest: offer_calls_kind)


section \<open>Offer order\<close>

text \<open>
  C1, as the code has it. For a non-null job, the machines whose \<^verbatim>\<open>AddJob\<close> is called
  are, in call order, an initial stretch of the ranked list (all of it when no machine
  accepts). The score of a machine is \<open>(maxJobs - currentJobs) + availableDiskSpace +
  availableRAM\<close>, computed with the operators of the machine arithmetic. The ranked list
  holds the registry's machines, each once, with scores that never increase along it, and
  machines of equal score stand in it in the order of the registry, that is by ascending
  id. In particular, when the registry holds three machines of scores 10, 10 and 5 in
  this order of ids, the offers go to the first, then the second, then the third; this is
  the case when the three are registered in that order with id 0 in an empty manager and
  the counter does not wrap around: the ids returned ascend, and the offers are made in
  the order of the registrations.
\<close>

theorem AddJob_offer_order:
  fixes gm :: "'u GridManager"
  shows
  "(case AddJob ar mAddJob gm (Some j) of (r, gm', calls) \<Rightarrow>
      prefix calls (map (\<lambda>p. Machine_AddJob_call (fst p)) (ranking ar (machines gm))) \<and>
      (\<not> r \<longrightarrow> calls = map (\<lambda>p. Machine_AddJob_call (fst p)) (ranking ar (machines gm))) \<and>
      (score ar m1 = 10 \<and> score ar m2 = 10 \<and> score ar m3 = 5 \<and>
       machines gm = [(k1, m1), (k2, m2), (k3, m3)] \<longrightarrow>
         prefix calls [Machine_AddJob_call k1, Machine_AddJob_call k2, Machine_AddJob_call k3])) \<and>
   score ar m =
     op_plus_ram ar
       (op_plus_disk ar (op_minus ar (maxJobs m) (currentJobs m)) (availableDiskSpace m))
       (availableRAM m) \<and>
   mset (ranking ar (machines gm)) = mset (machines gm) \<and>
   sorted_wrt (\<lambda>a b. score ar (snd a) \<ge> score ar (snd b)) (ranking ar (machines gm)) \<and>
   (\<forall>s. filter (\<lambda>p. score ar (snd p) = s) (ranking ar (machines gm)) =
        filter (\<lambda>p. score ar (snd p) = s) (machines gm)) \<and>
   (is_map (machines gm) \<longrightarrow>
      (\<forall>s. sorted_wrt (<)
             (map fst (filter (\<lambda>p. score ar (snd p) = s) (ranking ar (machines gm)))))) \<and>
   (machineId m1 = 0 \<and> machineId m2 = 0 \<and> machineId m3 = 0 \<and>
    unat (lastMachineId st) + 3 < 2 ^ 32 \<and>
    score ar m1 = 10 \<and> score ar m2 = 10 \<and> score ar m3 = 5 \<longrightarrow>
      (case AddMachine_calls st (new_GridManager :: 'u GridManager) [m1, m2, m3] of
         (ids, st', gm3) \<Rightarrow>
           length ids = 3 \<and> sorted_wrt (<) ids \<and> map fst (machines gm3) = ids \<and>
           (case AddJob ar mAddJob gm3 (Some j) of (r, gm', calls) \<Rightarrow>
              prefix calls (map Machine_AddJob_call ids) \<and>
              (\<not> r \<longrightarrow> calls = map Machine_AddJob_call ids))))"
proof (intro conjI)
  let ?all = "map (\<lambda>p. Machine_AddJob_call (fst p)) (ranking ar (machines gm))"
  have run: "AddJob ar mAddJob g (Some j) =
      (fst (offer mAddJob j (ranking ar (machines g)) (machines g)),
       g\<lparr>machines := fst (snd (offer mAddJob j (ranking ar (machines g)) (machines g)))\<rparr>,
       snd (snd (offer mAddJob j (ranking ar (machines g)) (machines g))))"
    for g :: "'u GridManager"
    by (simp add: AddJob_def split_beta Let_def)
  show "case AddJob ar mAddJob gm (Some j) of (r, gm', calls) \<Rightarrow>
      prefix calls ?all \<and> (\<not> r \<longrightarrow> calls = ?all) \<and>
      (score ar m1 = 10 \<and> score ar m2 = 10 \<and> score ar m3 = 5 \<and>
       machines gm = [(k1, m1), (k2, m2), (k3, m3)] \<longrightarrow>
         prefix calls [Machine_AddJob_call k1, Machine_AddJob_call k2, Machine_AddJob_call k3])"
    unfolding run prod.case
  proof (intro conjI impI)
    show "prefix (snd (snd (offer mAddJob j (ranking ar (machines gm)) (machines gm)))) ?all"
      by (rule offer_prefix)
    show "snd (snd (offer mAddJob j (ranking ar (machines gm)) (machines gm))) = ?all"
      if "\<not> fst (offer mAddJob j (ranking ar (machines gm)) (machines gm))"
      using that by (rule offer_all_when_failed)
    show "prefix (snd (snd (offer mAddJob j (ranking ar (machines gm)) (machines gm))))
        [Machine_AddJob_call k1, Machine_AddJob_call k2, Machine_AddJob_call k3]"
      if "score ar m1 = 10 \<and> score ar m2 = 10 \<and> score ar m3 = 5 \<and>
        machines gm = [(k1, m1), (k2, m2), (k3, m3)]"
      using that ranking_example [of ar m1 m2 m3 k1 k2 k3]
        offer_prefix [of mAddJob j "ranking ar (machines gm)" "machines gm"]
      by simp
  qed
  show "score ar m =
     op_plus_ram ar
       (op_plus_disk ar (op_minus ar (maxJobs m) (currentJobs m)) (availableDiskSpace m))
       (availableRAM m)"
    by (simp add: score_def)
  show "mset (ranking ar (machines gm)) = mset (machines gm)"
    by (rule mset_ranking)
  show "sorted_wrt (\<lambda>a b. score ar (snd a) \<ge> score ar (snd b)) (ranking ar (machines gm))"
    by (rule ranking_descending)
  show "\<forall>s. filter (\<lambda>p. score ar (snd p) = s) (ranking ar (machines gm)) =
        filter (\<lambda>p. score ar (snd p) = s) (machines gm)"
    by (simp add: ranking_stable)
  show "is_map (machines gm) \<longrightarrow>
      (\<forall>s. sorted_wrt (<)
             (map fst (filter (\<lambda>p. score ar (snd p) = s) (ranking ar (machines gm)))))"
    using ranking_ties_ascending [of "machines gm"] by (simp add: is_map_def)
  show "machineId m1 = 0 \<and> machineId m2 = 0 \<and> machineId m3 = 0 \<and>
    unat (lastMachineId st) + 3 < 2 ^ 32 \<and>
    score ar m1 = 10 \<and> score ar m2 = 10 \<and> score ar m3 = 5 \<longrightarrow>
      (case AddMachine_calls st (new_GridManager :: 'u GridManager) [m1, m2, m3] of
         (ids, st', gm3) \<Rightarrow>
           length ids = 3 \<and> sorted_wrt (<) ids \<and> map fst (machines gm3) = ids \<and>
           (case AddJob ar mAddJob gm3 (Some j) of (r, gm', calls) \<Rightarrow>
              prefix calls (map Machine_AddJob_call ids) \<and>
              (\<not> r \<longrightarrow> calls = map Machine_AddJob_call ids)))"
  proof
    let ?c = "lastMachineId st"
    let ?ms = "[(?c + 1, m1\<lparr>machineId := ?c + 1\<rparr>), (?c + 2, m2\<lparr>machineId := ?c + 2\<rparr>),
                (?c + 3, m3\<lparr>machineId := ?c + 3\<rparr>)]"
    let ?gm3 = "\<lparr>users = [], machines = ?ms\<rparr> :: 'u GridManager"
    assume h: "machineId m1 = 0 \<and> machineId m2 = 0 \<and> machineId m3 = 0 \<and>
      unat (lastMachineId st) + 3 < 2 ^ 32 \<and>
      score ar m1 = 10 \<and> score ar m2 = 10 \<and> score ar m3 = 5"
    then have z: "machineId m1 = 0" "machineId m2 = 0" "machineId m3 = 0"
      and b: "unat (lastMachineId st) + 3 < 2 ^ 32"
      and sc: "score ar m1 = 10" "score ar m2 = 10" "score ar m3 = 5"
      by simp_all
    note reg = AddMachine_calls_three [OF z b]
    have lt13: "?c + 1 < ?c + 3"
      using reg(2) reg(3) by (rule less_trans)
    have rk: "ranking ar ?ms = ?ms"
      using sc by (simp add: ranking_example score_stamped)
    have pre: "prefix (snd (snd (offer mAddJob j ?ms ?ms)))
        [Machine_AddJob_call (?c + 1), Machine_AddJob_call (?c + 2), Machine_AddJob_call (?c + 3)]"
      using offer_prefix [of mAddJob j ?ms ?ms] by simp
    have all: "snd (snd (offer mAddJob j ?ms ?ms)) =
        [Machine_AddJob_call (?c + 1), Machine_AddJob_call (?c + 2), Machine_AddJob_call (?c + 3)]"
      if "\<not> fst (offer mAddJob j ?ms ?ms)"
      using offer_all_when_failed [OF that] by simp
    have job: "case AddJob ar mAddJob ?gm3 (Some j) of (r, gm', calls) \<Rightarrow>
        prefix calls [Machine_AddJob_call (?c + 1), Machine_AddJob_call (?c + 2),
                      Machine_AddJob_call (?c + 3)] \<and>
        (\<not> r \<longrightarrow> calls = [Machine_AddJob_call (?c + 1), Machine_AddJob_call (?c + 2),
                      Machine_AddJob_call (?c + 3)])"
      unfolding run prod.case using pre all by (simp add: rk)
    show "case AddMachine_calls st (new_GridManager :: 'u GridManager) [m1, m2, m3] of
         (ids, st', gm3) \<Rightarrow>
           length ids = 3 \<and> sorted_wrt (<) ids \<and> map fst (machines gm3) = ids \<and>
           (case AddJob ar mAddJob gm3 (Some j) of (r, gm', calls) \<Rightarrow>
              prefix calls (map Machine_AddJob_call ids) \<and>
              (\<not> r \<longrightarrow> calls = map Machine_AddJob_call ids))"
      unfolding reg(1) prod.case using job reg(2) reg(3) lt13 by simp
  qed
qed

text \<open>
  Three machines that refuse every job, with scores \<open>9 + 1 + 0\<close>, \<open>1 + 6 + 3\<close> and
  \<open>2 + 2 + 1\<close>, registered in that order with id 0 in a fresh process: they get
  ids 1, 2, 3, and the offers are made to 1, 2, 3 in this order.
\<close>

theorem AddJob_offer_order_witness:
  "machineId (sample_machine 0 9 1 0) = 0 \<and> machineId (sample_machine 0 1 6 3) = 0 \<and>
   machineId (sample_machine 0 2 2 1) = 0 \<and>
   unat (lastMachineId initial_statics) + 3 < 2 ^ 32 \<and>
   score exact_arithmetic (sample_machine 0 9 1 0) = 10 \<and>
   score exact_arithmetic (sample_machine 0 1 6 3) = 10 \<and>
   score exact_arithmetic (sample_machine 0 2 2 1) = 5 \<and>
   AddMachine_calls initial_statics (new_GridManager :: bool GridManager)
       [sample_machine 0 9 1 0, sample_machine 0 1 6 3, sample_machine 0 2 2 1]
     = ([1, 2, 3], \<lparr>lastUserId = 0, lastMachineId = 3\<rparr>,
        \<lparr>users = [],
         machines = [(1, sample_machine 1 9 1 0), (2, sample_machine 2 1 6 3),
                     (3, sample_machine 3 2 2 1)]\<rparr>) \<and>
   score exact_arithmetic (sample_machine 1 9 1 0) = 10 \<and>
   score exact_arithmetic (sample_machine 2 1 6 3) = 10 \<and>
   score exact_arithmetic (sample_machine 3 2 2 1) = 5 \<and>
   is_map [(1 :: uint, sample_machine 1 9 1 0), (2, sample_machine 2 1 6 3),
           (3, sample_machine 3 2 2 1)] \<and>
   AddJob exact_arithmetic refusing_AddJob
       \<lparr>users = [] :: (uint \<times> bool User) list,
        machines = [(1, sample_machine 1 9 1 0), (2, sample_machine 2 1 6 3),
                    (3, sample_machine 3 2 2 1)]\<rparr> (Some 42)
     = (False,
        \<lparr>users = [],
         machines = [(1, sample_machine 1 9 1 0), (2, sample_machine 2 1 6 3),
                     (3, sample_machine 3 2 2 1)]\<rparr>,
        [Machine_AddJob_call 1, Machine_AddJob_call 2, Machine_AddJob_call 3])"
  using
    AddJob_offer_order [where ar = exact_arithmetic and mAddJob = refusing_AddJob and j = 42
      and gm = "\<lparr>users = [] :: (uint \<times> bool User) list,
        machines = [(1, sample_machine 1 9 1 0), (2, sample_machine 2 1 6 3),
                    (3, sample_machine 3 2 2 1)]\<rparr>"
      and ?m1.0 = "sample_machine 1 9 1 0" and ?m2.0 = "sample_machine 2 1 6 3"
      and ?m3.0 = "sample_machine 3 2 2 1" and ?k1.0 = 1 and ?k2.0 = 2 and ?k3.0 = 3]
    AddJob_offer_order [where ar = exact_arithmetic and mAddJob = refusing_AddJob and j = 42
      and gm = "new_GridManager :: bool GridManager" and st = initial_statics
      and ?m1.0 = "sample_machine 0 9 1 0" and ?m2.0 = "sample_machine 0 1 6 3"
      and ?m3.0 = "sample_machine 0 2 2 1"]
  by (simp add: AddJob_def AddMachine_def ranking_def better_def score_def exact_arithmetic_def
        refusing_AddJob_def sample_machine_def initial_statics_def new_GridManager_def is_map_def)

text \<open>
  The offer order follows the ids, not the registrations. Machines M1 (score 10), M2
  (score 10) and M3 (score 5) are registered in that order in a fresh process with the
  preset ids 9, 4 and 2: the job is offered to M2 (id 4), then to M1 (id 9), then to M3.
  The same happens without preset ids when the counter wraps around: with the counter at
  \<open>2\<^sup>3\<^sup>2 - 2\<close> the three get the ids \<open>2\<^sup>3\<^sup>2 - 1\<close>, 0 and 1, and M2 (id 0) is offered
  the job before M1.
\<close>

theorem AddJob_offer_order_counterexample:
  "score exact_arithmetic (sample_machine 9 9 1 0) = 10 \<and>
   score exact_arithmetic (sample_machine 4 1 6 3) = 10 \<and>
   score exact_arithmetic (sample_machine 2 2 2 1) = 5 \<and>
   ranking exact_arithmetic
       [(2, sample_machine 2 2 2 1), (4, sample_machine 4 1 6 3), (9, sample_machine 9 9 1 0)]
     = [(4, sample_machine 4 1 6 3), (9, sample_machine 9 9 1 0), (2, sample_machine 2 2 2 1)] \<and>
   AddMachine_calls initial_statics (new_GridManager :: bool GridManager)
       [sample_machine 9 9 1 0, sample_machine 4 1 6 3, sample_machine 2 2 2 1]
     = ([9, 4, 2], initial_statics,
        \<lparr>users = [],
         machines = [(2, sample_machine 2 2 2 1), (4, sample_machine 4 1 6 3),
                     (9, sample_machine 9 9 1 0)]\<rparr>) \<and>
   AddJob exact_arithmetic refusing_AddJob
       \<lparr>users = [] :: (uint \<times> bool User) list,
        machines = [(2, sample_machine 2 2 2 1), (4, sample_machine 4 1 6 3),
                    (9, sample_machine 9 9 1 0)]\<rparr> (Some 42)
     = (False,
        \<lparr>users = [],
         machines = [(2, sample_machine 2 2 2 1), (4, sample_machine 4 1 6 3),
                     (9, sample_machine 9 9 1 0)]\<rparr>,
        [Machine_AddJob_call 4, Machine_AddJob_call 9, Machine_AddJob_call 2]) \<and>
   AddMachine_calls \<lparr>lastUserId = 0, lastMachineId = 0xFFFFFFFE\<rparr>
       (new_GridManager :: bool GridManager)
       [sample_machine 0 9 1 0, sample_machine 0 1 6 3, sample_machine 0 2 2 1]
     = ([0xFFFFFFFF, 0, 1], \<lparr>lastUserId = 0, lastMachineId = 1\<rparr>,
        \<lparr>users = [],
         machines = [(0, sample_machine 0 1 6 3), (1, sample_machine 1 2 2 1),
                     (0xFFFFFFFF, sample_machine 0xFFFFFFFF 9 1 0)]\<rparr>) \<and>
   AddJob exact_arithmetic refusing_AddJob
       \<lparr>users = [] :: (uint \<times> bool User) list,
        machines = [(0, sample_machine 0 1 6 3), (1, sample_machine 1 2 2 1),
                    (0xFFFFFFFF, sample_machine 0xFFFFFFFF 9 1 0)]\<rparr> (Some 42)
     = (False,
        \<lparr>users = [],
         machines = [(0, sample_machine 0 1 6 3), (1, sample_machine 1 2 2 1),
                     (0xFFFFFFFF, sample_machine 0xFFFFFFFF 9 1 0)]\<rparr>,
        [Machine_AddJob_call 0, Machine_AddJob_call 0xFFFFFFFF, Machine_AddJob_call 1])"
  by (simp add: AddJob_def AddMachine_def ranking_def better_def score_def exact_arithmetic_def
        refusing_AddJob_def sample_machine_def initial_statics_def new_GridManager_def)


section \<open>First acceptor\<close>

text \<open>
  C2, as the code has it. Let the registry be a \<^verbatim>\<open>std::map\<close> and the job non-null. If
  the ranked list is \<open>pre @ e # post\<close>, where every machine of \<open>pre\<close> refuses and \<open>e\<close>
  accepts, then \<^verbatim>\<open>AddJob\<close> returns true, the offers made are exactly those to \<open>pre\<close> and
  then to \<open>e\<close>, and no machine of \<open>post\<close> is offered the job or changed. If every machine
  refuses, \<^verbatim>\<open>AddJob\<close> returns false after offering to all of them. \<^verbatim>\<open>AddJob\<close> takes the
  job from no machine: under the contract of \<^verbatim>\<open>Machine::AddJob\<close>, the machines that hold
  the job afterwards are the acceptor (if there is one) and the machines that held it
  before the call. So the job is held by exactly the acceptor, or by no machine after a
  failure, when no machine held it before the call.
\<close>

theorem AddJob_first_acceptor:
  "is_map (machines gm) \<longrightarrow>
     (ranking ar (machines gm) = pre @ e # post \<and>
      (\<forall>p\<in>set pre. \<not> fst (mAddJob (snd p) j)) \<and> fst (mAddJob (snd e) j) \<longrightarrow>
        (case AddJob ar mAddJob gm (Some j) of (r, gm', calls) \<Rightarrow>
           r \<and> calls = map (\<lambda>p. Machine_AddJob_call (fst p)) (pre @ [e]) \<and>
           (\<forall>p\<in>set post. Machine_AddJob_call (fst p) \<notin> set calls \<and>
                          GetMachine gm' (fst p) = Some (snd p)) \<and>
           users gm' = users gm \<and> map fst (machines gm') = map fst (machines gm) \<and>
           GetMachine gm' (fst e) = Some (snd (mAddJob (snd e) j)) \<and>
           (ownership_contract mAddJob j (machines gm) \<longrightarrow>
              (\<forall>k. holder gm' j k \<longleftrightarrow> k = fst e \<or> holder gm j k) \<and>
              ((\<forall>k. \<not> holder gm j k) \<longrightarrow> (\<forall>k. holder gm' j k \<longleftrightarrow> k = fst e))))) \<and>
     ((\<forall>p\<in>set (ranking ar (machines gm)). \<not> fst (mAddJob (snd p) j)) \<longrightarrow>
        (case AddJob ar mAddJob gm (Some j) of (r, gm', calls) \<Rightarrow>
           \<not> r \<and> calls = map (\<lambda>p. Machine_AddJob_call (fst p)) (ranking ar (machines gm)) \<and>
           users gm' = users gm \<and> map fst (machines gm') = map fst (machines gm) \<and>
           (ownership_contract mAddJob j (machines gm) \<longrightarrow>
              (\<forall>k. holder gm' j k \<longleftrightarrow> holder gm j k) \<and>
              ((\<forall>k. \<not> holder gm j k) \<longrightarrow> (\<forall>k. \<not> holder gm' j k)))))"
proof (intro impI conjI)
  let ?g = "\<lambda>p. snd (mAddJob (snd p) j)"
  let ?gm' = "gm\<lparr>machines := fold (\<lambda>p. map_assign (fst p) (?g p)) (pre @ [e]) (machines gm)\<rparr>"
  assume wf: "is_map (machines gm)"
  assume "ranking ar (machines gm) = pre @ e # post \<and>
      (\<forall>p\<in>set pre. \<not> fst (mAddJob (snd p) j)) \<and> fst (mAddJob (snd e) j)"
  then have dec: "ranking ar (machines gm) = pre @ e # post"
    and rej: "\<forall>p\<in>set pre. \<not> fst (mAddJob (snd p) j)" and acc: "fst (mAddJob (snd e) j)"
    by simp_all
  have run: "AddJob ar mAddJob gm (Some j) =
      (True, ?gm', map (\<lambda>p. Machine_AddJob_call (fst p)) (pre @ [e]))"
    using rej acc dec by (rule AddJob_accept_run [where mAddJob = mAddJob and j = j])
  have own: "holder ?gm' j k \<longleftrightarrow> k = fst e \<or> holder gm j k"
    if "ownership_contract mAddJob j (machines gm)" for k
    using wf dec rej acc that by (rule accept_owner [where f = mAddJob and j = j])
  show "case AddJob ar mAddJob gm (Some j) of (r, gm', calls) \<Rightarrow>
           r \<and> calls = map (\<lambda>p. Machine_AddJob_call (fst p)) (pre @ [e]) \<and>
           (\<forall>p\<in>set post. Machine_AddJob_call (fst p) \<notin> set calls \<and>
                          GetMachine gm' (fst p) = Some (snd p)) \<and>
           users gm' = users gm \<and> map fst (machines gm') = map fst (machines gm) \<and>
           GetMachine gm' (fst e) = Some (snd (mAddJob (snd e) j)) \<and>
           (ownership_contract mAddJob j (machines gm) \<longrightarrow>
              (\<forall>k. holder gm' j k \<longleftrightarrow> k = fst e \<or> holder gm j k) \<and>
              ((\<forall>k. \<not> holder gm j k) \<longrightarrow> (\<forall>k. holder gm' j k \<longleftrightarrow> k = fst e)))"
    unfolding run prod.case
  proof (intro conjI ballI impI allI)
    show True ..
    show "map (\<lambda>p. Machine_AddJob_call (fst p)) (pre @ [e]) =
        map (\<lambda>p. Machine_AddJob_call (fst p)) (pre @ [e])" ..
    show "users ?gm' = users gm"
      by simp
    show "map fst (machines ?gm') = map fst (machines gm)"
      using accept_keys_kept [OF wf dec, of ?g] by simp
    show "GetMachine ?gm' (fst e) = Some (?g e)"
      by (rule accept_acceptor_entry [OF wf dec])
  next
    fix p assume p: "p \<in> set post"
    from accept_post_untouched [OF wf dec p, of ?g]
    show "Machine_AddJob_call (fst p) \<notin> set (map (\<lambda>p. Machine_AddJob_call (fst p)) (pre @ [e]))"
      and "GetMachine ?gm' (fst p) = Some (snd p)"
      by (rule conjunct1, rule conjunct2)
  next
    fix k
    assume "ownership_contract mAddJob j (machines gm)"
    then show "holder ?gm' j k \<longleftrightarrow> k = fst e \<or> holder gm j k"
      by (rule own)
  next
    fix k
    assume "ownership_contract mAddJob j (machines gm)" and "\<forall>k. \<not> holder gm j k"
    with own [of k] show "holder ?gm' j k \<longleftrightarrow> k = fst e"
      by simp
  qed
next
  let ?g = "\<lambda>p. snd (mAddJob (snd p) j)"
  let ?xs = "ranking ar (machines gm)"
  let ?gm' = "gm\<lparr>machines := fold (\<lambda>p. map_assign (fst p) (?g p)) ?xs (machines gm)\<rparr>"
  assume wf: "is_map (machines gm)"
  assume rej: "\<forall>p\<in>set ?xs. \<not> fst (mAddJob (snd p) j)"
  have run: "AddJob ar mAddJob gm (Some j) =
      (False, ?gm', map (\<lambda>p. Machine_AddJob_call (fst p)) ?xs)"
    using rej by (rule AddJob_reject_run [where mAddJob = mAddJob and j = j])
  have own: "holder ?gm' j k \<longleftrightarrow> holder gm j k"
    if "ownership_contract mAddJob j (machines gm)" for k
    using wf rej that by (rule reject_owner [where f = mAddJob and j = j])
  show "case AddJob ar mAddJob gm (Some j) of (r, gm', calls) \<Rightarrow>
           \<not> r \<and> calls = map (\<lambda>p. Machine_AddJob_call (fst p)) (ranking ar (machines gm)) \<and>
           users gm' = users gm \<and> map fst (machines gm') = map fst (machines gm) \<and>
           (ownership_contract mAddJob j (machines gm) \<longrightarrow>
              (\<forall>k. holder gm' j k \<longleftrightarrow> holder gm j k) \<and>
              ((\<forall>k. \<not> holder gm j k) \<longrightarrow> (\<forall>k. \<not> holder gm' j k)))"
    unfolding run prod.case
  proof (intro conjI impI allI)
    show "\<not> False" ..
    show "map (\<lambda>p. Machine_AddJob_call (fst p)) ?xs = map (\<lambda>p. Machine_AddJob_call (fst p)) ?xs" ..
    show "users ?gm' = users gm"
      by simp
    show "map fst (machines ?gm') = map fst (machines gm)"
      using wf by (simp add: written_back_keys set_ranking)
  next
    fix k
    assume "ownership_contract mAddJob j (machines gm)"
    then show "holder ?gm' j k \<longleftrightarrow> holder gm j k"
      by (rule own)
  next
    fix k
    assume "ownership_contract mAddJob j (machines gm)" and "\<forall>k. \<not> holder gm j k"
    with own [of k] show "\<not> holder ?gm' j k"
      by simp
  qed
qed

text \<open>
  Machine 1 (score 10) is full, machine 2 (score 10) and machine 3 (score 5) have free
  slots, and no machine holds job 42: the job goes to machine 2, machine 3 is never asked,
  and machine 2 alone holds the job. With machine 1 alone the job is refused and nobody
  holds it.
\<close>

theorem AddJob_first_acceptor_witness:
  "is_map [(1 :: uint, sample_machine 1 0 10 0), (2, sample_machine 2 2 4 4),
           (3, sample_machine 3 1 2 2)] \<and>
   ranking exact_arithmetic
       [(1, sample_machine 1 0 10 0), (2, sample_machine 2 2 4 4), (3, sample_machine 3 1 2 2)]
     = [(1, sample_machine 1 0 10 0)] @ (2, sample_machine 2 2 4 4) # [(3, sample_machine 3 1 2 2)] \<and>
   \<not> fst (capacity_AddJob (sample_machine 1 0 10 0) 42) \<and>
   fst (capacity_AddJob (sample_machine 2 2 4 4) 42) \<and>
   ownership_contract capacity_AddJob 42
     [(1, sample_machine 1 0 10 0), (2, sample_machine 2 2 4 4), (3, sample_machine 3 1 2 2)] \<and>
   (\<forall>k. \<not> holder
           \<lparr>users = [] :: (uint \<times> bool User) list,
            machines = [(1, sample_machine 1 0 10 0), (2, sample_machine 2 2 4 4),
                        (3, sample_machine 3 1 2 2)]\<rparr> 42 k) \<and>
   AddJob exact_arithmetic capacity_AddJob
       \<lparr>users = [] :: (uint \<times> bool User) list,
        machines = [(1, sample_machine 1 0 10 0), (2, sample_machine 2 2 4 4),
                    (3, sample_machine 3 1 2 2)]\<rparr> (Some 42)
     = (True,
        \<lparr>users = [],
         machines = [(1, sample_machine 1 0 10 0),
                     (2, (sample_machine 2 2 4 4)\<lparr>currentJobs := 1, jobs := [(42, 42)]\<rparr>),
                     (3, sample_machine 3 1 2 2)]\<rparr>,
        [Machine_AddJob_call 1, Machine_AddJob_call 2]) \<and>
   (\<forall>k. holder
           \<lparr>users = [] :: (uint \<times> bool User) list,
            machines = [(1, sample_machine 1 0 10 0),
                        (2, (sample_machine 2 2 4 4)\<lparr>currentJobs := 1, jobs := [(42, 42)]\<rparr>),
                        (3, sample_machine 3 1 2 2)]\<rparr> 42 k \<longleftrightarrow> k = 2) \<and>
   is_map [(1 :: uint, sample_machine 1 0 10 0)] \<and>
   ownership_contract capacity_AddJob 42 [(1, sample_machine 1 0 10 0)] \<and>
   AddJob exact_arithmetic capacity_AddJob
       \<lparr>users = [] :: (uint \<times> bool User) list, machines = [(1, sample_machine 1 0 10 0)]\<rparr>
       (Some 42)
     = (False, \<lparr>users = [], machines = [(1, sample_machine 1 0 10 0)]\<rparr>,
        [Machine_AddJob_call 1]) \<and>
   (\<forall>k. \<not> holder
           \<lparr>users = [] :: (uint \<times> bool User) list,
            machines = [(1, sample_machine 1 0 10 0)]\<rparr> 42 k)"
  using
    AddJob_first_acceptor [where ar = exact_arithmetic and mAddJob = capacity_AddJob and j = 42
      and gm = "\<lparr>users = [] :: (uint \<times> bool User) list,
        machines = [(1, sample_machine 1 0 10 0), (2, sample_machine 2 2 4 4),
                    (3, sample_machine 3 1 2 2)]\<rparr>"
      and pre = "[(1, sample_machine 1 0 10 0)]" and e = "(2, sample_machine 2 2 4 4)"
      and post = "[(3, sample_machine 3 1 2 2)]"]
    AddJob_first_acceptor [where ar = exact_arithmetic and mAddJob = capacity_AddJob and j = 42
      and gm = "\<lparr>users = [] :: (uint \<times> bool User) list,
        machines = [(1, sample_machine 1 0 10 0)]\<rparr>"
      and pre = "[]" and e = "(1, sample_machine 1 0 10 0)" and post = "[]"]
  by (simp add: AddJob_def ranking_def better_def score_def exact_arithmetic_def
        capacity_AddJob_def sample_machine_def is_map_def ownership_contract_def holds_def
        holder_def GetMachine_def)

text \<open>
  The claim as it stands, that after a success exactly the acceptor holds the job and
  after a failure no machine does, fails for a job that is submitted again, with a
  \<^verbatim>\<open>Machine::AddJob\<close> that keeps the contract. Machines 1 and 2 have one slot each. The
  first call places job 42 on machine 1. The second call for the same job is refused by
  machine 1, which is full and still holds the job, and accepted by machine 2: \<^verbatim>\<open>AddJob\<close>
  returns true and the job is held by two machines. With machine 1 alone the second call
  returns false while machine 1 holds the job.
\<close>

theorem AddJob_first_acceptor_counterexample:
  "AddJob exact_arithmetic capacity_AddJob
       \<lparr>users = [] :: (uint \<times> bool User) list,
        machines = [(1, sample_machine 1 1 9 0), (2, sample_machine 2 1 4 0)]\<rparr> (Some 42)
     = (True,
        \<lparr>users = [],
         machines = [(1, (sample_machine 1 1 9 0)\<lparr>currentJobs := 1, jobs := [(42, 42)]\<rparr>),
                     (2, sample_machine 2 1 4 0)]\<rparr>,
        [Machine_AddJob_call 1]) \<and>
   ownership_contract capacity_AddJob 42
     [(1, (sample_machine 1 1 9 0)\<lparr>currentJobs := 1, jobs := [(42, 42)]\<rparr>),
      (2, sample_machine 2 1 4 0)] \<and>
   AddJob exact_arithmetic capacity_AddJob
       \<lparr>users = [] :: (uint \<times> bool User) list,
        machines = [(1, (sample_machine 1 1 9 0)\<lparr>currentJobs := 1, jobs := [(42, 42)]\<rparr>),
                    (2, sample_machine 2 1 4 0)]\<rparr> (Some 42)
     = (True,
        \<lparr>users = [],
         machines = [(1, (sample_machine 1 1 9 0)\<lparr>currentJobs := 1, jobs := [(42, 42)]\<rparr>),
                     (2, (sample_machine 2 1 4 0)\<lparr>currentJobs := 1, jobs := [(42, 42)]\<rparr>)]\<rparr>,
        [Machine_AddJob_call 1, Machine_AddJob_call 2]) \<and>
   holder
     \<lparr>users = [] :: (uint \<times> bool User) list,
      machines = [(1, (sample_machine 1 1 9 0)\<lparr>currentJobs := 1, jobs := [(42, 42)]\<rparr>),
                  (2, (sample_machine 2 1 4 0)\<lparr>currentJobs := 1, jobs := [(42, 42)]\<rparr>)]\<rparr> 42 1 \<and>
   holder
     \<lparr>users = [] :: (uint \<times> bool User) list,
      machines = [(1, (sample_machine 1 1 9 0)\<lparr>currentJobs := 1, jobs := [(42, 42)]\<rparr>),
                  (2, (sample_machine 2 1 4 0)\<lparr>currentJobs := 1, jobs := [(42, 42)]\<rparr>)]\<rparr> 42 2 \<and>
   AddJob exact_arithmetic capacity_AddJob
       \<lparr>users = [] :: (uint \<times> bool User) list,
        machines = [(1, (sample_machine 1 1 9 0)\<lparr>currentJobs := 1, jobs := [(42, 42)]\<rparr>)]\<rparr>
       (Some 42)
     = (False,
        \<lparr>users = [],
         machines = [(1, (sample_machine 1 1 9 0)\<lparr>currentJobs := 1, jobs := [(42, 42)]\<rparr>)]\<rparr>,
        [Machine_AddJob_call 1]) \<and>
   holder
     \<lparr>users = [] :: (uint \<times> bool User) list,
      machines = [(1, (sample_machine 1 1 9 0)\<lparr>currentJobs := 1, jobs := [(42, 42)]\<rparr>)]\<rparr> 42 1"
  by (simp add: AddJob_def ranking_def better_def score_def exact_arithmetic_def
        capacity_AddJob_def sample_machine_def ownership_contract_def holds_def
        holder_def GetMachine_def)


section \<open>Authorization gate\<close>

text \<open>
  C3. \<^verbatim>\<open>AddJobByUser\<close> with a null user or a null job returns false, changes nothing and
  calls nobody. When \<^verbatim>\<open>CanCreateJob\<close> answers no it returns false, the manager and the user
  are unchanged, and the only call made is that question: no machine is offered the job and
  \<^verbatim>\<open>CreatedJob\<close> is not called. When it answers yes the result is that of \<^verbatim>\<open>AddJob\<close>, whose
  offers all come after the question, and \<^verbatim>\<open>CreatedJob\<close> is called (once, last) exactly
  when \<^verbatim>\<open>AddJob\<close> placed the job.
\<close>

theorem AddJobByUser_gating:
  "AddJobByUser can created ar mAddJob gm None job = (False, gm, None, []) \<and>
   AddJobByUser can created ar mAddJob gm (Some u) None = (False, gm, Some u, []) \<and>
   (\<not> can u j \<longrightarrow>
      AddJobByUser can created ar mAddJob gm (Some u) (Some j) =
        (False, gm, Some u, [CanCreateJob_call])) \<and>
   (can u j \<longrightarrow>
      (case AddJob ar mAddJob gm (Some j) of (placed, gm', offers) \<Rightarrow>
         AddJobByUser can created ar mAddJob gm (Some u) (Some j) =
           (placed, gm', Some (if placed then created u j else u),
            CanCreateJob_call # offers @ (if placed then [CreatedJob_call] else [])))) \<and>
   (case AddJobByUser can created ar mAddJob gm user job of (r, gm', user', calls) \<Rightarrow>
      (r \<longleftrightarrow> CreatedJob_call \<in> set calls) \<and>
      count_list calls CreatedJob_call = (if r then 1 else 0) \<and>
      (r \<longleftrightarrow> (\<exists>u j. user = Some u \<and> job = Some j \<and> can u j \<and>
                      fst (AddJob ar mAddJob gm (Some j)))) \<and>
      (\<forall>k. Machine_AddJob_call k \<in> set calls \<longrightarrow>
         (\<exists>u j rest. user = Some u \<and> job = Some j \<and> can u j \<and>
                      calls = CanCreateJob_call # rest)))"
proof -
  have kind: "CreatedJob_call \<notin> set (snd (snd (AddJob ar mAddJob gm job')))" for job'
    using AddJob_calls_kind [of CreatedJob_call ar mAddJob gm job'] by auto
  then have cnt: "count_list (snd (snd (AddJob ar mAddJob gm job'))) CreatedJob_call = 0" for job'
    by (simp add: count_list_0_iff)
  show ?thesis
    using kind cnt
    by (cases user; cases job) (auto simp: AddJobByUser_def split_beta)
qed

text \<open>
  A user whose flag is off is turned away before any machine is asked; a user whose flag
  is on gets the job placed on machine 1 and is notified.
\<close>

theorem AddJobByUser_gating_witness:
  "\<not> flag_CanCreateJob (sample_user 1 False) 42 \<and>
   AddJobByUser flag_CanCreateJob flag_CreatedJob exact_arithmetic capacity_AddJob
       \<lparr>users = [(1, sample_user 1 False)], machines = [(1, sample_machine 1 1 0 0)]\<rparr>
       (Some (sample_user 1 False)) (Some 42)
     = (False, \<lparr>users = [(1, sample_user 1 False)], machines = [(1, sample_machine 1 1 0 0)]\<rparr>,
        Some (sample_user 1 False), [CanCreateJob_call]) \<and>
   flag_CanCreateJob (sample_user 2 True) 42 \<and>
   AddJobByUser flag_CanCreateJob flag_CreatedJob exact_arithmetic capacity_AddJob
       \<lparr>users = [(1, sample_user 1 False)], machines = [(1, sample_machine 1 1 0 0)]\<rparr>
       (Some (sample_user 2 True)) (Some 42)
     = (True,
        \<lparr>users = [(1, sample_user 1 False)],
         machines = [(1, (sample_machine 1 1 0 0)\<lparr>currentJobs := 1, jobs := [(42, 42)]\<rparr>)]\<rparr>,
        Some (sample_user 2 False),
        [CanCreateJob_call, Machine_AddJob_call 1, CreatedJob_call])"
  using
    AddJobByUser_gating [where can = flag_CanCreateJob and created = flag_CreatedJob
      and ar = exact_arithmetic and mAddJob = capacity_AddJob and u = "sample_user 1 False" and j = 42
      and user = "Some (sample_user 1 False)" and job = "Some 42"
      and gm = "\<lparr>users = [(1, sample_user 1 False)], machines = [(1, sample_machine 1 1 0 0)]\<rparr>"]
    AddJobByUser_gating [where can = flag_CanCreateJob and created = flag_CreatedJob
      and ar = exact_arithmetic and mAddJob = capacity_AddJob and u = "sample_user 2 True" and j = 42
      and user = "Some (sample_user 2 True)" and job = "Some 42"
      and gm = "\<lparr>users = [(1, sample_user 1 False)], machines = [(1, sample_machine 1 1 0 0)]\<rparr>"]
  by (simp add: AddJobByUser_def AddJob_def ranking_def better_def score_def exact_arithmetic_def capacity_AddJob_def
        sample_machine_def sample_user_def flag_CanCreateJob_def flag_CreatedJob_def)


section \<open>Snapshot bytes and the loops of Load\<close>

lemma bytes_reassemble:
  fixes v :: uint
  shows "ucast (ucast v :: 8 word) OR push_bit 8 (ucast (ucast (drop_bit 8 v) :: 8 word))
           OR push_bit 16 (ucast (ucast (drop_bit 16 v) :: 8 word))
           OR push_bit 24 (ucast (ucast (drop_bit 24 v) :: 8 word)) = v"
proof (rule bit_word_eqI)
  fix n assume "n < LENGTH(32)"
  then have n: "n < 32" by simp
  consider "n < 8" | "8 \<le> n" "n < 16" | "16 \<le> n" "n < 24" | "24 \<le> n" "n < 32"
    using n by linarith
  then show "bit (ucast (ucast v :: 8 word) OR push_bit 8 (ucast (ucast (drop_bit 8 v) :: 8 word))
           OR push_bit 16 (ucast (ucast (drop_bit 16 v) :: 8 word))
           OR push_bit 24 (ucast (ucast (drop_bit 24 v) :: 8 word)) :: uint) n = bit v n"
    by cases (auto simp: bit_simps)
qed

lemma ReadUInt32_WriteUInt32:
  "ReadUInt32 (WriteUInt32 [] v @ rest) = Some (v, rest)"
  by (simp add: ReadUInt32_def WriteUInt32_def bytes_reassemble)

lemma WriteUInt32_append: "WriteUInt32 bb v = bb @ WriteUInt32 [] v"
  by (simp add: WriteUInt32_def)

lemma map_assign_behind:
  "\<forall>x\<in>set es. fst x < k \<Longrightarrow> map_assign k v es = es @ [(k, v)]"
  by (induction es) auto

lemma fold_Save_bytes:
  "fold (\<lambda>e b. b @ f (snd e)) es bb = bb @ concat (map (\<lambda>e. f (snd e)) es)"
  by (induction es arbitrary: bb) simp_all

lemma statics_overwritten:
  fixes st st0 :: statics
  shows "st0\<lparr>lastUserId := lastUserId st, lastMachineId := lastMachineId st\<rparr> = st"
  by simp

lemma nonzero_keys_count:
  fixes ks :: "uint list"
  assumes "distinct ks" and "0 \<notin> set ks"
  shows "length ks < 2 ^ 32"
proof -
  have "card (set ks) \<le> card (UNIV - {0 :: uint})"
    using assms(2) by (intro card_mono) auto
  also have "\<dots> = 2 ^ 32 - 1"
    by (simp add: card_Diff_singleton card_word)
  finally show ?thesis
    using assms(1) by (simp add: distinct_card)
qed

lemma load_users_saved:
  assumes codec: "\<forall>u rest. \<exists>u'. uLoad (uSave u @ rest) = Some (u', rest) \<and> userId u' = userId u"
    and ok: "list_all (\<lambda>e. fst e \<noteq> 0 \<and> userId (snd e) = fst e) es"
    and asc: "sorted_wrt (<) (map fst (users gm) @ map fst es)"
  shows "\<exists>gm'. load_users uLoad (length es) st gm (concat (map (\<lambda>e. uSave (snd e)) es) @ rest) =
             Some (st, gm', rest) \<and>
           map fst (users gm') = map fst (users gm) @ map fst es \<and>
           (list_all (\<lambda>e. fst e \<noteq> 0 \<and> userId (snd e) = fst e) (users gm) \<longrightarrow>
              list_all (\<lambda>e. fst e \<noteq> 0 \<and> userId (snd e) = fst e) (users gm')) \<and>
           machines gm' = machines gm"
  using ok asc
proof (induction es arbitrary: gm)
  case Nil
  then show ?case by simp
next
  case (Cons e es)
  let ?rest = "concat (map (\<lambda>e. uSave (snd e)) es) @ rest"
  from codec have "\<exists>u'. uLoad (uSave (snd e) @ ?rest) = Some (u', ?rest) \<and> userId u' = userId (snd e)"
    by (elim allE)
  then obtain u' where dec: "uLoad (uSave (snd e) @ ?rest) = Some (u', ?rest)"
    and id: "userId u' = userId (snd e)"
    by (elim exE conjE)
  from Cons.prems(1) have e: "fst e \<noteq> 0" "userId (snd e) = fst e"
    and es: "list_all (\<lambda>e. fst e \<noteq> 0 \<and> userId (snd e) = fst e) es"
    by simp_all
  from Cons.prems(2) have below: "\<forall>x\<in>set (users gm). fst x < fst e"
    by (simp add: sorted_wrt_append)
  let ?gm = "gm\<lparr>users := users gm @ [(fst e, u')]\<rparr>"
  have add: "AddUser st gm (Some u') = (fst e, st, ?gm)"
    using e id below by (simp add: AddUser_def map_assign_behind)
  have asc': "sorted_wrt (<) (map fst (users ?gm) @ map fst es)"
    using Cons.prems(2) by simp
  from Cons.IH [OF es asc'] obtain gm' where
    run: "load_users uLoad (length es) st ?gm ?rest = Some (st, gm', rest)"
    and keys: "map fst (users gm') = map fst (users ?gm) @ map fst es"
    and inv: "list_all (\<lambda>e. fst e \<noteq> 0 \<and> userId (snd e) = fst e) (users ?gm) \<longrightarrow>
              list_all (\<lambda>e. fst e \<noteq> 0 \<and> userId (snd e) = fst e) (users gm')"
    and ms: "machines gm' = machines ?gm"
    by (elim exE conjE)
  have "load_users uLoad (length (e # es)) st gm
          (concat (map (\<lambda>e. uSave (snd e)) (e # es)) @ rest) = Some (st, gm', rest)"
    using dec add run by simp
  moreover have "map fst (users gm') = map fst (users gm) @ map fst (e # es)"
    using keys by simp
  moreover have "list_all (\<lambda>e. fst e \<noteq> 0 \<and> userId (snd e) = fst e) (users gm) \<longrightarrow>
              list_all (\<lambda>e. fst e \<noteq> 0 \<and> userId (snd e) = fst e) (users gm')"
    using inv e id by simp
  moreover have "machines gm' = machines gm"
    using ms by simp
  ultimately show ?case
    by (intro exI [of _ gm'] conjI)
qed

lemma load_machines_saved:
  assumes codec: "\<forall>m rest. \<exists>m'. mLoad (mSave m @ rest) = Some (m', rest) \<and> machineId m' = machineId m"
    and ok: "list_all (\<lambda>e. fst e \<noteq> 0 \<and> machineId (snd e) = fst e) es"
    and asc: "sorted_wrt (<) (map fst (machines gm) @ map fst es)"
  shows "\<exists>gm'. load_machines mLoad (length es) st gm (concat (map (\<lambda>e. mSave (snd e)) es) @ rest) =
             Some (st, gm', rest) \<and>
           map fst (machines gm') = map fst (machines gm) @ map fst es \<and>
           (list_all (\<lambda>e. fst e \<noteq> 0 \<and> machineId (snd e) = fst e) (machines gm) \<longrightarrow>
              list_all (\<lambda>e. fst e \<noteq> 0 \<and> machineId (snd e) = fst e) (machines gm')) \<and>
           users gm' = users gm"
  using ok asc
proof (induction es arbitrary: gm)
  case Nil
  then show ?case by simp
next
  case (Cons e es)
  let ?rest = "concat (map (\<lambda>e. mSave (snd e)) es) @ rest"
  from codec have "\<exists>m'. mLoad (mSave (snd e) @ ?rest) = Some (m', ?rest) \<and> machineId m' = machineId (snd e)"
    by (elim allE)
  then obtain m' where dec: "mLoad (mSave (snd e) @ ?rest) = Some (m', ?rest)"
    and id: "machineId m' = machineId (snd e)"
    by (elim exE conjE)
  from Cons.prems(1) have e: "fst e \<noteq> 0" "machineId (snd e) = fst e"
    and es: "list_all (\<lambda>e. fst e \<noteq> 0 \<and> machineId (snd e) = fst e) es"
    by simp_all
  from Cons.prems(2) have below: "\<forall>x\<in>set (machines gm). fst x < fst e"
    by (simp add: sorted_wrt_append)
  let ?gm = "gm\<lparr>machines := machines gm @ [(fst e, m')]\<rparr>"
  have add: "AddMachine st gm (Some m') = (fst e, st, ?gm)"
    using e id below by (simp add: AddMachine_def map_assign_behind)
  have asc': "sorted_wrt (<) (map fst (machines ?gm) @ map fst es)"
    using Cons.prems(2) by simp
  from Cons.IH [OF es asc'] obtain gm' where
    run: "load_machines mLoad (length es) st ?gm ?rest = Some (st, gm', rest)"
    and keys: "map fst (machines gm') = map fst (machines ?gm) @ map fst es"
    and inv: "list_all (\<lambda>e. fst e \<noteq> 0 \<and> machineId (snd e) = fst e) (machines ?gm) \<longrightarrow>
              list_all (\<lambda>e. fst e \<noteq> 0 \<and> machineId (snd e) = fst e) (machines gm')"
    and us: "users gm' = users ?gm"
    by (elim exE conjE)
  have "load_machines mLoad (length (e # es)) st gm
          (concat (map (\<lambda>e. mSave (snd e)) (e # es)) @ rest) = Some (st, gm', rest)"
    using dec add run by simp
  moreover have "map fst (machines gm') = map fst (machines gm) @ map fst (e # es)"
    using keys by simp
  moreover have "list_all (\<lambda>e. fst e \<noteq> 0 \<and> machineId (snd e) = fst e) (machines gm) \<longrightarrow>
              list_all (\<lambda>e. fst e \<noteq> 0 \<and> machineId (snd e) = fst e) (machines gm')"
    using inv e id by simp
  moreover have "users gm' = users gm"
    using us by simp
  ultimately show ?case
    by (intro exI [of _ gm'] conjI)
qed

lemma users_ok_count: "users_ok es \<Longrightarrow> unat (of_nat (length es) :: uint) = length es"
proof -
  assume ok: "users_ok es"
  then have "distinct (map fst es)"
    by (simp add: users_ok_def is_map_def strict_sorted_iff)
  moreover from ok have "0 \<notin> set (map fst es)"
    by (auto simp: users_ok_def list_all_iff)
  ultimately have "length (map fst es) < 2 ^ 32"
    by (rule nonzero_keys_count)
  then show ?thesis
    by (simp add: unat_of_nat)
qed

lemma machines_ok_count: "machines_ok es \<Longrightarrow> unat (of_nat (length es) :: uint) = length es"
proof -
  assume ok: "machines_ok es"
  then have "distinct (map fst es)"
    by (simp add: machines_ok_def is_map_def strict_sorted_iff)
  moreover from ok have "0 \<notin> set (map fst es)"
    by (auto simp: machines_ok_def list_all_iff)
  ultimately have "length (map fst es) < 2 ^ 32"
    by (rule nonzero_keys_count)
  then show ?thesis
    by (simp add: unat_of_nat)
qed

lemma Save_layout:
  "Save uSave mSave st gm bb =
     (True,
      bb @ WriteUInt32 [] (lastUserId st) @ WriteUInt32 [] (lastMachineId st) @
        WriteUInt32 [] (of_nat (length (users gm))) @
        concat (map (\<lambda>e. uSave (snd e)) (users gm)) @
        WriteUInt32 [] (of_nat (length (machines gm))) @
        concat (map (\<lambda>e. mSave (snd e)) (machines gm)))"
  by (simp add: Save_def Let_def fold_Save_bytes WriteUInt32_def)

lemma Load_Save:
  fixes gm :: "'u GridManager" and uLoad :: "ByteBuffer \<Rightarrow> ('u User \<times> ByteBuffer) option"
  assumes cu: "\<forall>u rest. \<exists>u'. uLoad (uSave u @ rest) = Some (u', rest) \<and> userId u' = userId u"
    and cm: "\<forall>m rest. \<exists>m'. mLoad (mSave m @ rest) = Some (m', rest) \<and> machineId m' = machineId m"
    and uok: "users_ok (users gm)" and mok: "machines_ok (machines gm)"
  shows "\<exists>gm'. Load uLoad mLoad st0 (snd (Save uSave mSave st gm []) @ rest) = Some (gm', st, rest) \<and>
           map fst (users gm') = map fst (users gm) \<and>
           map fst (machines gm') = map fst (machines gm) \<and>
           users_ok (users gm') \<and> machines_ok (machines gm')"
proof -
  let ?P = "\<lambda>e. fst e \<noteq> 0 \<and> userId (snd e) = fst e"
  let ?Q = "\<lambda>e. fst e \<noteq> 0 \<and> machineId (snd e) = fst e"
  let ?ms = "WriteUInt32 [] (of_nat (length (machines gm))) @
      concat (map (\<lambda>e. mSave (snd e)) (machines gm)) @ rest"
  let ?us = "concat (map (\<lambda>e. uSave (snd e)) (users gm)) @ ?ms"
  let ?G = "new_GridManager :: 'u GridManager"
  have snap: "snd (Save uSave mSave st gm []) @ rest =
      WriteUInt32 [] (lastUserId st) @ WriteUInt32 [] (lastMachineId st) @
      WriteUInt32 [] (of_nat (length (users gm))) @ ?us"
    by (simp add: Save_layout)
  from uok have u1: "list_all ?P (users gm)"
    and u2: "sorted_wrt (<) (map fst (users ?G) @ map fst (users gm))"
    by (simp_all add: users_ok_def is_map_def new_GridManager_def)
  from load_users_saved [OF cu u1 u2, of st ?ms] obtain gm1 where
    l1: "load_users uLoad (length (users gm)) st ?G ?us = Some (st, gm1, ?ms)"
    and k1: "map fst (users gm1) = map fst (users ?G) @ map fst (users gm)"
    and i1: "list_all ?P (users ?G) \<longrightarrow> list_all ?P (users gm1)"
    and m1: "machines gm1 = machines ?G"
    by (elim exE conjE)
  from mok have v1: "list_all ?Q (machines gm)"
    and v2: "sorted_wrt (<) (map fst (machines gm1) @ map fst (machines gm))"
    by (simp_all add: machines_ok_def is_map_def new_GridManager_def m1)
  from load_machines_saved [OF cm v1 v2, of st rest] obtain gm2 where
    l2: "load_machines mLoad (length (machines gm)) st gm1
           (concat (map (\<lambda>e. mSave (snd e)) (machines gm)) @ rest) = Some (st, gm2, rest)"
    and k2: "map fst (machines gm2) = map fst (machines gm1) @ map fst (machines gm)"
    and i2: "list_all ?Q (machines gm1) \<longrightarrow> list_all ?Q (machines gm2)"
    and m2: "users gm2 = users gm1"
    by (elim exE conjE)
  have "Load uLoad mLoad st0 (snd (Save uSave mSave st gm []) @ rest) = Some (gm2, st, rest)"
    unfolding snap
    by (simp add: Load_def ReadUInt32_WriteUInt32 statics_overwritten
        users_ok_count [OF uok] machines_ok_count [OF mok] l1 l2)
  moreover have ku: "map fst (users gm2) = map fst (users gm)"
    using k1 m2 by (simp add: new_GridManager_def)
  moreover have km: "map fst (machines gm2) = map fst (machines gm)"
    using k2 m1 by (simp add: new_GridManager_def)
  moreover have "users_ok (users gm2)"
    using uok i1 ku m2 by (simp add: users_ok_def is_map_def new_GridManager_def)
  moreover have "machines_ok (machines gm2)"
    using mok i2 km m1 by (simp add: machines_ok_def is_map_def new_GridManager_def)
  ultimately show ?thesis
    by (intro exI [of _ gm2] conjI)
qed

lemma sample_user_codec:
  "\<exists>u'. sample_uLoad (sample_uSave u @ rest) = Some (u', rest) \<and> userId u' = userId u"
  by (simp add: sample_uLoad_def sample_uSave_def ReadUInt32_WriteUInt32 sample_user_def)

lemma sample_machine_codec:
  "\<exists>m'. sample_mLoad (sample_mSave m @ rest) = Some (m', rest) \<and> machineId m' = machineId m"
  by (simp add: sample_mLoad_def sample_mSave_def ReadUInt32_WriteUInt32 sample_machine_def)

lemma sample_user_roundtrip:
  "sample_uLoad (sample_uSave (sample_user n b) @ rest) = Some (sample_user n b, rest)"
  by (simp add: sample_uLoad_def sample_uSave_def ReadUInt32_WriteUInt32 sample_user_def)

lemma sample_machine_roundtrip:
  "sample_mLoad (sample_mSave (sample_machine n 0 0 0) @ rest) = Some (sample_machine n 0 0 0, rest)"
  by (simp add: sample_mLoad_def sample_mSave_def ReadUInt32_WriteUInt32 sample_machine_def)


lemma load_users_two:
  "load_users f 2 st gm bb =
      (case f bb of
         None \<Rightarrow> None
       | Some (u, bb') \<Rightarrow>
           (case AddUser st gm (Some u) of (_, st', gm') \<Rightarrow> load_users f (Suc 0) st' gm' bb'))"
  by (simp add: numeral_2_eq_2)

lemma sample_ids: "userId (sample_user n b) = n" "machineId (sample_machine n s d r) = n"
  by (simp_all add: sample_user_def sample_machine_def)

lemma sample_snapshot_bytes:
  "snd (Save sample_uSave sample_mSave \<lparr>lastUserId = 2, lastMachineId = 1\<rparr>
          \<lparr>users = [(1, sample_user 1 True), (2, sample_user 2 False)],
           machines = [(1, sample_machine 1 0 0 0)]\<rparr> []) =
   WriteUInt32 [] 2 @ WriteUInt32 [] 1 @ WriteUInt32 [] 2 @
   sample_uSave (sample_user 1 True) @ sample_uSave (sample_user 2 False) @
   WriteUInt32 [] 1 @ sample_mSave (sample_machine 1 0 0 0)"
  by (simp add: Save_layout)

lemma sample_snapshot_loads:
  "Load sample_uLoad sample_mLoad st0
      (snd (Save sample_uSave sample_mSave \<lparr>lastUserId = 2, lastMachineId = 1\<rparr>
          \<lparr>users = [(1, sample_user 1 True), (2, sample_user 2 False)],
           machines = [(1, sample_machine 1 0 0 0)]\<rparr> []))
     = Some (\<lparr>users = [(1, sample_user 1 True), (2, sample_user 2 False)],
             machines = [(1, sample_machine 1 0 0 0)]\<rparr>,
            \<lparr>lastUserId = 2, lastMachineId = 1\<rparr>, [])"
  unfolding sample_snapshot_bytes
  by (simp add: Load_def ReadUInt32_WriteUInt32 load_users_two sample_user_roundtrip
      sample_machine_roundtrip [where rest = "[]", simplified]
      AddUser_def AddMachine_def sample_ids new_GridManager_def)

lemma sample_registry_ok:
  "users_ok [(1 :: uint, sample_user 1 True), (2, sample_user 2 False)]"
  "machines_ok [(1 :: uint, sample_machine 1 0 0 0)]"
  by (simp_all add: users_ok_def machines_ok_def is_map_def sample_ids)


section \<open>Reconstruction fidelity\<close>

text \<open>
  C4, as the code has it. \<^verbatim>\<open>Save\<close> appends, in this order, \<^verbatim>\<open>lastUserId\<close>, \<^verbatim>\<open>lastMachineId\<close>, the number of
  users, the users' records in key order, the number of machines and the machines' records
  in key order. Suppose the decoders of \<^verbatim>\<open>User\<close> and \<^verbatim>\<open>Machine\<close> read back what the
  encoders wrote, at least as far as the id goes, and the manager's registries satisfy the
  registry invariant (entries keyed by their entity's id, no key 0). Then \<^verbatim>\<open>Load\<close> of the
  snapshot succeeds, whatever the counters were before, and yields both counters as they
  were saved and a manager with the same user ids and the same machine ids (as sets and
  in number).
\<close>

theorem Load_Save_fidelity:
  fixes gm :: "'u GridManager" and uLoad :: "ByteBuffer \<Rightarrow> ('u User \<times> ByteBuffer) option"
  shows
  "Save uSave mSave st gm bb =
     (True,
      bb @ WriteUInt32 [] (lastUserId st) @ WriteUInt32 [] (lastMachineId st) @
        WriteUInt32 [] (of_nat (length (users gm))) @
        concat (map (\<lambda>e. uSave (snd e)) (users gm)) @
        WriteUInt32 [] (of_nat (length (machines gm))) @
        concat (map (\<lambda>e. mSave (snd e)) (machines gm))) \<and>
   ((\<forall>u rest. \<exists>u'. uLoad (uSave u @ rest) = Some (u', rest) \<and> userId u' = userId u) \<and>
    (\<forall>m rest. \<exists>m'. mLoad (mSave m @ rest) = Some (m', rest) \<and> machineId m' = machineId m) \<and>
    users_ok (users gm) \<and> machines_ok (machines gm) \<longrightarrow>
      (case Load uLoad mLoad st0 (snd (Save uSave mSave st gm []) @ rest) of
         None \<Rightarrow> False
       | Some (gm', st', rest') \<Rightarrow>
           lastUserId st' = lastUserId st \<and> lastMachineId st' = lastMachineId st \<and>
           rest' = rest \<and>
           fst ` set (users gm') = fst ` set (users gm) \<and>
           fst ` set (machines gm') = fst ` set (machines gm) \<and>
           length (users gm') = length (users gm) \<and>
           length (machines gm') = length (machines gm) \<and>
           map fst (users gm') = map fst (users gm) \<and>
           map fst (machines gm') = map fst (machines gm)))"
proof (intro conjI impI)
  show "Save uSave mSave st gm bb =
     (True,
      bb @ WriteUInt32 [] (lastUserId st) @ WriteUInt32 [] (lastMachineId st) @
        WriteUInt32 [] (of_nat (length (users gm))) @
        concat (map (\<lambda>e. uSave (snd e)) (users gm)) @
        WriteUInt32 [] (of_nat (length (machines gm))) @
        concat (map (\<lambda>e. mSave (snd e)) (machines gm)))"
    by (rule Save_layout)
next
  assume h: "(\<forall>u rest. \<exists>u'. uLoad (uSave u @ rest) = Some (u', rest) \<and> userId u' = userId u) \<and>
    (\<forall>m rest. \<exists>m'. mLoad (mSave m @ rest) = Some (m', rest) \<and> machineId m' = machineId m) \<and>
    users_ok (users gm) \<and> machines_ok (machines gm)"
  from h have cu: "\<forall>u rest. \<exists>u'. uLoad (uSave u @ rest) = Some (u', rest) \<and> userId u' = userId u"
    by (rule conjunct1)
  from h have cm: "\<forall>m rest. \<exists>m'. mLoad (mSave m @ rest) = Some (m', rest) \<and> machineId m' = machineId m"
    by (rule conjunct2 [THEN conjunct1])
  from h have uok: "users_ok (users gm)"
    by (rule conjunct2 [THEN conjunct2, THEN conjunct1])
  from h have mok: "machines_ok (machines gm)"
    by (rule conjunct2 [THEN conjunct2, THEN conjunct2])
  from Load_Save [OF cu cm uok mok, of st0 st rest] obtain gm' where
    run: "Load uLoad mLoad st0 (snd (Save uSave mSave st gm []) @ rest) = Some (gm', st, rest)"
    and ku: "map fst (users gm') = map fst (users gm)"
    and km: "map fst (machines gm') = map fst (machines gm)"
    by (elim exE conjE)
  have su: "fst ` set (users gm') = fst ` set (users gm)"
    using arg_cong [OF ku, of set] by (simp only: set_map)
  have lu: "length (users gm') = length (users gm)"
    using arg_cong [OF ku, of length] by (simp only: length_map)
  have sm: "fst ` set (machines gm') = fst ` set (machines gm)"
    using arg_cong [OF km, of set] by (simp only: set_map)
  have lm: "length (machines gm') = length (machines gm)"
    using arg_cong [OF km, of length] by (simp only: length_map)
  show "case Load uLoad mLoad st0 (snd (Save uSave mSave st gm []) @ rest) of
         None \<Rightarrow> False
       | Some (gm', st', rest') \<Rightarrow>
           lastUserId st' = lastUserId st \<and> lastMachineId st' = lastMachineId st \<and>
           rest' = rest \<and>
           fst ` set (users gm') = fst ` set (users gm) \<and>
           fst ` set (machines gm') = fst ` set (machines gm) \<and>
           length (users gm') = length (users gm) \<and>
           length (machines gm') = length (machines gm) \<and>
           map fst (users gm') = map fst (users gm) \<and>
           map fst (machines gm') = map fst (machines gm)"
    by (simp only: run option.case prod.case su sm lu lm ku km simp_thms)
qed

text \<open>
  A manager with users 1 and 2 and machine 1, saved with the counters at 2 and 1, is read
  back as it was.
\<close>

theorem Load_Save_fidelity_witness:
  "(\<forall>u rest. \<exists>u'. sample_uLoad (sample_uSave u @ rest) = Some (u', rest) \<and> userId u' = userId u) \<and>
   (\<forall>m rest. \<exists>m'. sample_mLoad (sample_mSave m @ rest) = Some (m', rest) \<and>
       machineId m' = machineId m) \<and>
   users_ok [(1 :: uint, sample_user 1 True), (2, sample_user 2 False)] \<and>
   machines_ok [(1 :: uint, sample_machine 1 0 0 0)] \<and>
   Load sample_uLoad sample_mLoad initial_statics
       (snd (Save sample_uSave sample_mSave \<lparr>lastUserId = 2, lastMachineId = 1\<rparr>
          \<lparr>users = [(1, sample_user 1 True), (2, sample_user 2 False)],
           machines = [(1, sample_machine 1 0 0 0)]\<rparr> []) @ [])
     = Some (\<lparr>users = [(1, sample_user 1 True), (2, sample_user 2 False)],
             machines = [(1, sample_machine 1 0 0 0)]\<rparr>,
            \<lparr>lastUserId = 2, lastMachineId = 1\<rparr>, [])"
  using Load_Save_fidelity [where uLoad = sample_uLoad and uSave = sample_uSave
      and mLoad = sample_mLoad and mSave = sample_mSave and ?st0.0 = initial_statics
      and st = "\<lparr>lastUserId = 2, lastMachineId = 1\<rparr>" and rest = "[]" and bb = "[]"
      and gm = "\<lparr>users = [(1, sample_user 1 True), (2, sample_user 2 False)],
           machines = [(1, sample_machine 1 0 0 0)]\<rparr>"]
    sample_user_codec sample_machine_codec sample_registry_ok
    sample_snapshot_loads [of initial_statics]
  by simp

lemma zero_id_snapshot_loads:
  "Load sample_uLoad sample_mLoad st0
      (snd (Save sample_uSave sample_mSave \<lparr>lastUserId = 0, lastMachineId = 0\<rparr>
          \<lparr>users = [(0, sample_user 0 True)], machines = []\<rparr> []))
     = Some (\<lparr>users = [(1, sample_user 1 True)], machines = []\<rparr>,
            \<lparr>lastUserId = 1, lastMachineId = 0\<rparr>, [])"
  by (simp add: Save_layout Load_def ReadUInt32_WriteUInt32
      ReadUInt32_WriteUInt32 [where rest = "[]", simplified]
      sample_user_roundtrip AddUser_def sample_ids new_GridManager_def)
    (simp add: sample_user_def)

lemma restamped_snapshot_loads:
  "Load sample_uLoad sample_mLoad st0
      (snd (Save sample_uSave sample_mSave \<lparr>lastUserId = 1, lastMachineId = 0\<rparr>
          \<lparr>users = [(1, sample_user 9 True)], machines = []\<rparr> []))
     = Some (\<lparr>users = [(9, sample_user 9 True)], machines = []\<rparr>,
            \<lparr>lastUserId = 1, lastMachineId = 0\<rparr>, [])"
  by (simp add: Save_layout Load_def ReadUInt32_WriteUInt32
      ReadUInt32_WriteUInt32 [where rest = "[]", simplified]
      sample_user_roundtrip AddUser_def sample_ids new_GridManager_def)

text \<open>
  Without the registry invariant the claim fails although the sample encoding of users
  reads back every user as it was written. With the counter at \<open>2\<^sup>3\<^sup>2 - 1\<close> a zero-id
  \<^verbatim>\<open>AddUser\<close> wraps the counter and registers the user under id 0; \<^verbatim>\<open>Load\<close> of the
  snapshot of that manager takes the user for an unassigned one, counts the counter up and
  registers it under id 1: the id sets \<open>{0}\<close> and \<open>{1}\<close> differ, and so do the counters 0
  and 1. And a user that is registered under id 1 while its own id has been set to 9 is
  registered under 9 by \<^verbatim>\<open>Load\<close>.
\<close>

theorem Load_Save_fidelity_counterexample:
  "AddUser \<lparr>lastUserId = 0xFFFFFFFF, lastMachineId = 0\<rparr> (new_GridManager :: bool GridManager)
       (Some (sample_user 0 True))
     = (0, \<lparr>lastUserId = 0, lastMachineId = 0\<rparr>,
        \<lparr>users = [(0, sample_user 0 True)], machines = []\<rparr>) \<and>
   (\<forall>u rest. sample_uLoad (sample_uSave u @ rest) = Some (u, rest)) \<and>
   Load sample_uLoad sample_mLoad \<lparr>lastUserId = 0, lastMachineId = 0\<rparr>
      (snd (Save sample_uSave sample_mSave \<lparr>lastUserId = 0, lastMachineId = 0\<rparr>
          \<lparr>users = [(0, sample_user 0 True)], machines = []\<rparr> []))
     = Some (\<lparr>users = [(1, sample_user 1 True)], machines = []\<rparr>,
            \<lparr>lastUserId = 1, lastMachineId = 0\<rparr>, []) \<and>
   fst ` set [(1 :: uint, sample_user 1 True)] \<noteq> fst ` set [(0 :: uint, sample_user 0 True)] \<and>
   lastUserId \<lparr>lastUserId = 1, lastMachineId = 0\<rparr> \<noteq>
     lastUserId \<lparr>lastUserId = 0, lastMachineId = 0\<rparr> \<and>
   Load sample_uLoad sample_mLoad \<lparr>lastUserId = 1, lastMachineId = 0\<rparr>
      (snd (Save sample_uSave sample_mSave \<lparr>lastUserId = 1, lastMachineId = 0\<rparr>
          \<lparr>users = [(1, sample_user 9 True)], machines = []\<rparr> []))
     = Some (\<lparr>users = [(9, sample_user 9 True)], machines = []\<rparr>,
            \<lparr>lastUserId = 1, lastMachineId = 0\<rparr>, []) \<and>
   fst ` set [(9 :: uint, sample_user 9 True)] \<noteq> fst ` set [(1 :: uint, sample_user 9 True)]"
proof -
  have "sample_uLoad (sample_uSave u @ rest) = Some (u, rest)" for u :: "bool User" and rest
    using sample_user_roundtrip [of "userId u" "userState u" rest]
    by (cases u) (simp add: sample_user_def)
  then show ?thesis
    by (simp add: zero_id_snapshot_loads restamped_snapshot_loads)
      (simp add: AddUser_def new_GridManager_def sample_user_def)
qed

section \<open>The counter bound\<close>

lemma set_map_assign: "set (map_assign k v es) \<subseteq> insert (k, v) (set es)"
  by (induction es) auto

lemma list_all_map_assign:
  "P (k, v) \<Longrightarrow> list_all P es \<Longrightarrow> list_all P (map_assign k v es)"
  using set_map_assign [of k v es] by (auto simp: list_all_iff)

lemma list_all_map_erase: "list_all P es \<Longrightarrow> list_all P (map_erase k es)"
  using set_map_erase [of k es] by (auto simp: list_all_iff)

lemma list_all_mono_bound:
  fixes c c' :: uint
  shows "c \<le> c' \<Longrightarrow> list_all (\<lambda>e. fst e \<le> c) es \<Longrightarrow> list_all (\<lambda>e. fst e \<le> c') es"
  by (auto simp: list_all_iff)

lemma counter_step:
  fixes c :: uint
  shows "c \<noteq> - 1 \<Longrightarrow> c \<le> c + 1"
  using inc_less_eq_self_iff_eq [of c] by auto

lemma list_all_keys:
  "map fst es' = map fst es \<Longrightarrow> list_all (\<lambda>e. P (fst e)) es \<Longrightarrow> list_all (\<lambda>e. P (fst e)) es'"
proof -
  assume k: "map fst es' = map fst es" and a: "list_all (\<lambda>e. P (fst e)) es"
  from a have "list_all P (map fst es)"
    by (simp add: list_all_iff)
  then have "list_all P (map fst es')"
    by (simp only: k)
  then show ?thesis
    by (simp add: list_all_iff)
qed

lemma statics_replaced:
  fixes st :: statics
  shows "st\<lparr>lastUserId := a, lastMachineId := b\<rparr> = \<lparr>lastUserId = a, lastMachineId = b\<rparr>"
  by (cases st) simp

lemma Load_ignores_statics: "Load uLoad mLoad st1 bb = Load uLoad mLoad st2 bb"
  unfolding Load_def statics_replaced by (rule refl)


lemma empty_snapshot_loads:
  "Load sample_uLoad sample_mLoad st0
      (snd (Save sample_uSave sample_mSave initial_statics (new_GridManager :: bool GridManager) []))
     = Some (new_GridManager, initial_statics, [])"
  by (simp add: Save_layout Load_def initial_statics_def new_GridManager_def
      ReadUInt32_WriteUInt32 ReadUInt32_WriteUInt32 [where rest = "[]", simplified])


lemma wrapped_snapshot_loads:
  "Load sample_uLoad sample_mLoad st0
      (snd (Save sample_uSave sample_mSave \<lparr>lastUserId = 0xFFFFFFFF, lastMachineId = 0\<rparr>
          \<lparr>users = [(0, sample_user 0 True), (5, sample_user 5 True)], machines = []\<rparr> []))
     = Some (\<lparr>users = [(0, sample_user 0 True), (5, sample_user 5 True)], machines = []\<rparr>,
            \<lparr>lastUserId = 0, lastMachineId = 0\<rparr>, [])"
  by (simp add: Save_layout Load_def ReadUInt32_WriteUInt32 load_users_two
      ReadUInt32_WriteUInt32 [where rest = "[]", simplified]
      sample_user_roundtrip AddUser_def sample_ids new_GridManager_def)

lemma key_above_bound:
  fixes c :: uint
  shows "c < k \<Longrightarrow> \<not> list_all (\<lambda>e. fst e \<le> c) (map_assign k v es)"
proof
  assume lt: "c < k" and all: "list_all (\<lambda>e. fst e \<le> c) (map_assign k v es)"
  have "k \<in> fst ` set (map_assign k v es)"
    by (simp add: keys_map_assign)
  with all have "k \<le> c"
    by (auto simp: list_all_iff)
  with lt show False
    by simp
qed

text \<open>
  C5, as the code has it. In a fresh process the counters bound the (empty) collections.
  When each counter is at least every id of its collection, this is still so after a
  zero-id \<^verbatim>\<open>AddUser\<close> or \<^verbatim>\<open>AddMachine\<close> provided the counter is not at its maximum
  \<open>2\<^sup>3\<^sup>2 - 1\<close>, after a registration with a preset nonzero id provided that id is not
  above the counter, after a registration of a null pointer, and after \<^verbatim>\<open>RemoveUser\<close> and
  \<^verbatim>\<open>RemoveMachine\<close>. It also holds of the manager and the counters that \<^verbatim>\<open>Load\<close> yields
  from the snapshot \<^verbatim>\<open>Save\<close> writes of this manager, provided the decoders of \<^verbatim>\<open>User\<close> and
  \<^verbatim>\<open>Machine\<close> read back the id that the encoders wrote and the manager holds every entity
  under the entity's own id and none under id 0. A registration with a preset id above
  the counter leaves the counters as they are and stores the entity, so that the bound
  does not hold after it.
\<close>

theorem counters_bound_kept:
  fixes gm :: "'u GridManager" and uLoad :: "ByteBuffer \<Rightarrow> ('u User \<times> ByteBuffer) option"
  shows
  "counters_bound initial_statics (new_GridManager :: 'u GridManager) \<and>
   (counters_bound st gm \<longrightarrow>
      (userId u = 0 \<and> lastUserId st \<noteq> - 1 \<longrightarrow>
         (case AddUser st gm (Some u) of (n, st', gm') \<Rightarrow> counters_bound st' gm')) \<and>
      (userId u \<noteq> 0 \<and> userId u \<le> lastUserId st \<longrightarrow>
         (case AddUser st gm (Some u) of (n, st', gm') \<Rightarrow> counters_bound st' gm')) \<and>
      (case AddUser st gm None of (n, st', gm') \<Rightarrow> counters_bound st' gm') \<and>
      (machineId m = 0 \<and> lastMachineId st \<noteq> - 1 \<longrightarrow>
         (case AddMachine st gm (Some m) of (n, st', gm') \<Rightarrow> counters_bound st' gm')) \<and>
      (machineId m \<noteq> 0 \<and> machineId m \<le> lastMachineId st \<longrightarrow>
         (case AddMachine st gm (Some m) of (n, st', gm') \<Rightarrow> counters_bound st' gm')) \<and>
      (case AddMachine st gm None of (n, st', gm') \<Rightarrow> counters_bound st' gm') \<and>
      counters_bound st (snd (RemoveUser gm k)) \<and>
      counters_bound st (snd (RemoveMachine gm k)) \<and>
      ((\<forall>u rest. \<exists>u'. uLoad (uSave u @ rest) = Some (u', rest) \<and> userId u' = userId u) \<and>
       (\<forall>m rest. \<exists>m'. mLoad (mSave m @ rest) = Some (m', rest) \<and> machineId m' = machineId m) \<and>
       users_ok (users gm) \<and> machines_ok (machines gm) \<longrightarrow>
         (case Load uLoad mLoad st0 (snd (Save uSave mSave st gm []) @ rest) of
            None \<Rightarrow> False
          | Some (gm', st', rest') \<Rightarrow> counters_bound st' gm'))) \<and>
   (userId u \<noteq> 0 \<and> lastUserId st < userId u \<longrightarrow>
      (case AddUser st gm (Some u) of
         (n, st', gm') \<Rightarrow> st' = st \<and> GetUser gm' n = Some u \<and> \<not> counters_bound st' gm')) \<and>
   (machineId m \<noteq> 0 \<and> lastMachineId st < machineId m \<longrightarrow>
      (case AddMachine st gm (Some m) of
         (n, st', gm') \<Rightarrow> st' = st \<and> GetMachine gm' n = Some m \<and> \<not> counters_bound st' gm'))"
proof (intro conjI impI)
  show "counters_bound initial_statics (new_GridManager :: 'u GridManager)"
    by (simp add: counters_bound_def new_GridManager_def)
next
  assume "userId u \<noteq> 0 \<and> lastUserId st < userId u"
  then show "case AddUser st gm (Some u) of
         (n, st', gm') \<Rightarrow> st' = st \<and> GetUser gm' n = Some u \<and> \<not> counters_bound st' gm'"
    by (simp add: AddUser_def GetUser_def map_of_map_assign counters_bound_def key_above_bound)
next
  assume "machineId m \<noteq> 0 \<and> lastMachineId st < machineId m"
  then show "case AddMachine st gm (Some m) of
         (n, st', gm') \<Rightarrow> st' = st \<and> GetMachine gm' n = Some m \<and> \<not> counters_bound st' gm'"
    by (simp add: AddMachine_def GetMachine_def map_of_map_assign counters_bound_def
        key_above_bound)
next
  assume b: "counters_bound st gm" and h: "userId u = 0 \<and> lastUserId st \<noteq> - 1"
  then have "lastUserId st \<le> lastUserId st + 1"
    by (simp add: counter_step)
  with b h show "case AddUser st gm (Some u) of (n, st', gm') \<Rightarrow> counters_bound st' gm'"
    by (auto simp: AddUser_zero counters_bound_def
        intro!: list_all_map_assign elim: list_all_mono_bound)
next
  assume b: "counters_bound st gm" and h: "userId u \<noteq> 0 \<and> userId u \<le> lastUserId st"
  then show "case AddUser st gm (Some u) of (n, st', gm') \<Rightarrow> counters_bound st' gm'"
    by (auto simp: AddUser_def counters_bound_def intro!: list_all_map_assign)
next
  assume "counters_bound st gm"
  then show "case AddUser st gm None of (n, st', gm') \<Rightarrow> counters_bound st' gm'"
    by (simp add: AddUser_def)
next
  assume b: "counters_bound st gm" and h: "machineId m = 0 \<and> lastMachineId st \<noteq> - 1"
  then have "lastMachineId st \<le> lastMachineId st + 1"
    by (simp add: counter_step)
  with b h show "case AddMachine st gm (Some m) of (n, st', gm') \<Rightarrow> counters_bound st' gm'"
    by (auto simp: AddMachine_zero counters_bound_def
        intro!: list_all_map_assign elim: list_all_mono_bound)
next
  assume b: "counters_bound st gm" and h: "machineId m \<noteq> 0 \<and> machineId m \<le> lastMachineId st"
  then show "case AddMachine st gm (Some m) of (n, st', gm') \<Rightarrow> counters_bound st' gm'"
    by (auto simp: AddMachine_def counters_bound_def intro!: list_all_map_assign)
next
  assume "counters_bound st gm"
  then show "case AddMachine st gm None of (n, st', gm') \<Rightarrow> counters_bound st' gm'"
    by (simp add: AddMachine_def)
next
  assume "counters_bound st gm"
  then show "counters_bound st (snd (RemoveUser gm k))"
    by (auto simp: RemoveUser_def counters_bound_def split: option.splits
        intro: list_all_map_erase)
next
  assume "counters_bound st gm"
  then show "counters_bound st (snd (RemoveMachine gm k))"
    by (auto simp: RemoveMachine_def counters_bound_def split: option.splits
        intro: list_all_map_erase)
next
  assume b: "counters_bound st gm"
  assume h: "(\<forall>u rest. \<exists>u'. uLoad (uSave u @ rest) = Some (u', rest) \<and> userId u' = userId u) \<and>
       (\<forall>m rest. \<exists>m'. mLoad (mSave m @ rest) = Some (m', rest) \<and> machineId m' = machineId m) \<and>
       users_ok (users gm) \<and> machines_ok (machines gm)"
  from h have cu: "\<forall>u rest. \<exists>u'. uLoad (uSave u @ rest) = Some (u', rest) \<and> userId u' = userId u"
    by (rule conjunct1)
  from h have cm: "\<forall>m rest. \<exists>m'. mLoad (mSave m @ rest) = Some (m', rest) \<and> machineId m' = machineId m"
    by (rule conjunct2 [THEN conjunct1])
  from h have uok: "users_ok (users gm)"
    by (rule conjunct2 [THEN conjunct2, THEN conjunct1])
  from h have mok: "machines_ok (machines gm)"
    by (rule conjunct2 [THEN conjunct2, THEN conjunct2])
  from Load_Save [OF cu cm uok mok, of st0 st rest] obtain gm' where
    run: "Load uLoad mLoad st0 (snd (Save uSave mSave st gm []) @ rest) = Some (gm', st, rest)"
    and ku: "map fst (users gm') = map fst (users gm)"
    and km: "map fst (machines gm') = map fst (machines gm)"
    by (elim exE conjE)
  from b have bu: "list_all (\<lambda>e. fst e \<le> lastUserId st) (users gm)"
    and bm: "list_all (\<lambda>e. fst e \<le> lastMachineId st) (machines gm)"
    by (simp_all add: counters_bound_def)
  from ku bu have "list_all (\<lambda>e. fst e \<le> lastUserId st) (users gm')"
    by (rule list_all_keys)
  moreover from km bm have "list_all (\<lambda>e. fst e \<le> lastMachineId st) (machines gm')"
    by (rule list_all_keys)
  ultimately have "counters_bound st gm'"
    by (simp add: counters_bound_def)
  then show "case Load uLoad mLoad st0 (snd (Save uSave mSave st gm []) @ rest) of
            None \<Rightarrow> False
          | Some (gm', st', rest') \<Rightarrow> counters_bound st' gm'"
    by (simp only: run option.case prod.case)
qed

text \<open>
  The manager with users 1, 2 and machine 1 and the counters at 2 and 1: a zero-id user and
  a zero-id machine are added, then a user with preset id 2 and a machine with preset
  id 1, and user 1 is removed; its snapshot is loaded. With two machines and the
  counters at 2 and 2, a user with preset id 7 or a machine with preset id 4 is stored
  while the counters stay.
\<close>

theorem counters_bound_kept_witness:
  "counters_bound \<lparr>lastUserId = 2, lastMachineId = 1\<rparr>
       \<lparr>users = [(1, sample_user 1 True), (2, sample_user 2 False)],
        machines = [(1, sample_machine 1 0 0 0)]\<rparr> \<and>
   userId (sample_user 0 True) = 0 \<and> lastUserId \<lparr>lastUserId = 2, lastMachineId = 1\<rparr> \<noteq> - 1 \<and>
   machineId (sample_machine 0 0 0 0) = 0 \<and>
   lastMachineId \<lparr>lastUserId = 2, lastMachineId = 1\<rparr> \<noteq> - 1 \<and>
   counters_bound \<lparr>lastUserId = 3, lastMachineId = 1\<rparr>
       \<lparr>users = [(1, sample_user 1 True), (2, sample_user 2 False), (3, sample_user 3 True)],
        machines = [(1, sample_machine 1 0 0 0)]\<rparr> \<and>
   counters_bound \<lparr>lastUserId = 2, lastMachineId = 2\<rparr>
       \<lparr>users = [(1, sample_user 1 True), (2, sample_user 2 False)],
        machines = [(1, sample_machine 1 0 0 0), (2, sample_machine 2 0 0 0)]\<rparr> \<and>
   userId (sample_user 2 True) \<noteq> 0 \<and>
   userId (sample_user 2 True) \<le> lastUserId \<lparr>lastUserId = 2, lastMachineId = 1\<rparr> \<and>
   machineId (sample_machine 1 3 0 0) \<noteq> 0 \<and>
   machineId (sample_machine 1 3 0 0) \<le> lastMachineId \<lparr>lastUserId = 2, lastMachineId = 1\<rparr> \<and>
   counters_bound \<lparr>lastUserId = 2, lastMachineId = 1\<rparr>
       \<lparr>users = [(1, sample_user 1 True), (2, sample_user 2 True)],
        machines = [(1, sample_machine 1 0 0 0)]\<rparr> \<and>
   counters_bound \<lparr>lastUserId = 2, lastMachineId = 1\<rparr>
       \<lparr>users = [(1, sample_user 1 True), (2, sample_user 2 False)],
        machines = [(1, sample_machine 1 3 0 0)]\<rparr> \<and>
   counters_bound \<lparr>lastUserId = 2, lastMachineId = 1\<rparr>
       \<lparr>users = [(2, sample_user 2 False)], machines = [(1, sample_machine 1 0 0 0)]\<rparr> \<and>
   (\<forall>u rest. \<exists>u'. sample_uLoad (sample_uSave u @ rest) = Some (u', rest) \<and> userId u' = userId u) \<and>
   (\<forall>m rest. \<exists>m'. sample_mLoad (sample_mSave m @ rest) = Some (m', rest) \<and>
       machineId m' = machineId m) \<and>
   users_ok [(1 :: uint, sample_user 1 True), (2, sample_user 2 False)] \<and>
   machines_ok [(1 :: uint, sample_machine 1 0 0 0)] \<and>
   counters_bound \<lparr>lastUserId = 2, lastMachineId = 1\<rparr>
     (fst (the (Load sample_uLoad sample_mLoad initial_statics
        (snd (Save sample_uSave sample_mSave \<lparr>lastUserId = 2, lastMachineId = 1\<rparr>
            \<lparr>users = [(1, sample_user 1 True), (2, sample_user 2 False)],
             machines = [(1, sample_machine 1 0 0 0)]\<rparr> []))))) \<and>
   userId (sample_user 7 True) \<noteq> 0 \<and>
   lastUserId \<lparr>lastUserId = 2, lastMachineId = 2\<rparr> < userId (sample_user 7 True) \<and>
   machineId (sample_machine 4 0 0 0) \<noteq> 0 \<and>
   lastMachineId \<lparr>lastUserId = 2, lastMachineId = 2\<rparr> < machineId (sample_machine 4 0 0 0) \<and>
   AddUser \<lparr>lastUserId = 2, lastMachineId = 2\<rparr>
       \<lparr>users = [(1, sample_user 1 True), (2, sample_user 2 False)],
        machines = [(1, sample_machine 1 0 0 0), (2, sample_machine 2 0 0 0)]\<rparr>
       (Some (sample_user 7 True))
     = (7, \<lparr>lastUserId = 2, lastMachineId = 2\<rparr>,
        \<lparr>users = [(1, sample_user 1 True), (2, sample_user 2 False), (7, sample_user 7 True)],
         machines = [(1, sample_machine 1 0 0 0), (2, sample_machine 2 0 0 0)]\<rparr>) \<and>
   \<not> counters_bound \<lparr>lastUserId = 2, lastMachineId = 2\<rparr>
       \<lparr>users = [(1, sample_user 1 True), (2, sample_user 2 False), (7, sample_user 7 True)],
        machines = [(1, sample_machine 1 0 0 0), (2, sample_machine 2 0 0 0)]\<rparr> \<and>
   AddMachine \<lparr>lastUserId = 2, lastMachineId = 2\<rparr>
       \<lparr>users = [(1, sample_user 1 True), (2, sample_user 2 False)],
        machines = [(1, sample_machine 1 0 0 0), (2, sample_machine 2 0 0 0)]\<rparr>
       (Some (sample_machine 4 0 0 0))
     = (4, \<lparr>lastUserId = 2, lastMachineId = 2\<rparr>,
        \<lparr>users = [(1, sample_user 1 True), (2, sample_user 2 False)],
         machines = [(1, sample_machine 1 0 0 0), (2, sample_machine 2 0 0 0),
                     (4, sample_machine 4 0 0 0)]\<rparr>) \<and>
   \<not> counters_bound \<lparr>lastUserId = 2, lastMachineId = 2\<rparr>
       \<lparr>users = [(1, sample_user 1 True), (2, sample_user 2 False)],
        machines = [(1, sample_machine 1 0 0 0), (2, sample_machine 2 0 0 0),
                    (4, sample_machine 4 0 0 0)]\<rparr>"
  using
    counters_bound_kept [where uLoad = sample_uLoad and uSave = sample_uSave
      and mLoad = sample_mLoad and mSave = sample_mSave and ?st0.0 = initial_statics
      and st = "\<lparr>lastUserId = 2, lastMachineId = 2\<rparr>" and rest = "[]" and k = 1
      and u = "sample_user 7 True" and m = "sample_machine 4 0 0 0"
      and gm = "\<lparr>users = [(1, sample_user 1 True), (2, sample_user 2 False)],
           machines = [(1, sample_machine 1 0 0 0), (2, sample_machine 2 0 0 0)]\<rparr>"]
    counters_bound_kept [where uLoad = sample_uLoad and uSave = sample_uSave
      and mLoad = sample_mLoad and mSave = sample_mSave and ?st0.0 = initial_statics
      and st = "\<lparr>lastUserId = 2, lastMachineId = 1\<rparr>" and rest = "[]" and k = 1
      and u = "sample_user 0 True" and m = "sample_machine 0 0 0 0"
      and gm = "\<lparr>users = [(1, sample_user 1 True), (2, sample_user 2 False)],
           machines = [(1, sample_machine 1 0 0 0)]\<rparr>"]
    counters_bound_kept [where uLoad = sample_uLoad and uSave = sample_uSave
      and mLoad = sample_mLoad and mSave = sample_mSave and ?st0.0 = initial_statics
      and st = "\<lparr>lastUserId = 2, lastMachineId = 1\<rparr>" and rest = "[]" and k = 1
      and u = "sample_user 2 True" and m = "sample_machine 1 3 0 0"
      and gm = "\<lparr>users = [(1, sample_user 1 True), (2, sample_user 2 False)],
           machines = [(1, sample_machine 1 0 0 0)]\<rparr>"]
    sample_user_codec sample_machine_codec sample_registry_ok
    sample_snapshot_loads [of initial_statics]
  by (simp add: counters_bound_def sample_ids AddUser_def AddMachine_def)

text \<open>
  The bound fails after a registration with a preset id above the counter (a user with id
  5 in a fresh process), after a zero-id registration with the counter at \<open>2\<^sup>3\<^sup>2 - 1\<close>
  (the counter wraps to 0 while user 7 stays), and, for a manager that is alive during a
  \<^verbatim>\<open>Load\<close>, after the load has replaced the shared counters (user 2 stays, the counters
  are those of the snapshot: 0). It also fails for what \<^verbatim>\<open>Load\<close> yields from the snapshot
  of a manager that satisfies the bound but holds an entity under another id than the
  entity's own (user 9 under key 1 with the counter at 1 is loaded under key 9), or holds
  one under id 0 (with the counter at \<open>2\<^sup>3\<^sup>2 - 1\<close>, the user under key 0 is taken for an
  unassigned one and the counter wraps to 0 while user 5 stays).
\<close>

theorem counters_bound_kept_counterexample:
  "AddUser initial_statics (new_GridManager :: bool GridManager) (Some (sample_user 5 True))
     = (5, initial_statics, \<lparr>users = [(5, sample_user 5 True)], machines = []\<rparr>) \<and>
   \<not> counters_bound initial_statics
       \<lparr>users = [(5, sample_user 5 True)], machines = [] :: (uint \<times> Machine) list\<rparr> \<and>
   counters_bound \<lparr>lastUserId = 0xFFFFFFFF, lastMachineId = 0\<rparr>
       \<lparr>users = [(7, sample_user 7 True)], machines = []\<rparr> \<and>
   AddUser \<lparr>lastUserId = 0xFFFFFFFF, lastMachineId = 0\<rparr>
       \<lparr>users = [(7, sample_user 7 True)], machines = []\<rparr> (Some (sample_user 0 True))
     = (0, \<lparr>lastUserId = 0, lastMachineId = 0\<rparr>,
        \<lparr>users = [(0, sample_user 0 True), (7, sample_user 7 True)], machines = []\<rparr>) \<and>
   \<not> counters_bound \<lparr>lastUserId = 0, lastMachineId = 0\<rparr>
       \<lparr>users = [(0, sample_user 0 True), (7, sample_user 7 True)],
        machines = [] :: (uint \<times> Machine) list\<rparr> \<and>
   counters_bound \<lparr>lastUserId = 2, lastMachineId = 0\<rparr>
       \<lparr>users = [(2, sample_user 2 True)], machines = []\<rparr> \<and>
   Load sample_uLoad sample_mLoad \<lparr>lastUserId = 2, lastMachineId = 0\<rparr>
      (snd (Save sample_uSave sample_mSave initial_statics (new_GridManager :: bool GridManager) []))
     = Some (new_GridManager, initial_statics, []) \<and>
   \<not> counters_bound initial_statics
       \<lparr>users = [(2, sample_user 2 True)], machines = [] :: (uint \<times> Machine) list\<rparr> \<and>
   counters_bound \<lparr>lastUserId = 1, lastMachineId = 0\<rparr>
       \<lparr>users = [(1, sample_user 9 True)], machines = []\<rparr> \<and>
   Load sample_uLoad sample_mLoad initial_statics
      (snd (Save sample_uSave sample_mSave \<lparr>lastUserId = 1, lastMachineId = 0\<rparr>
          \<lparr>users = [(1, sample_user 9 True)], machines = []\<rparr> []))
     = Some (\<lparr>users = [(9, sample_user 9 True)], machines = []\<rparr>,
            \<lparr>lastUserId = 1, lastMachineId = 0\<rparr>, []) \<and>
   \<not> counters_bound \<lparr>lastUserId = 1, lastMachineId = 0\<rparr>
       \<lparr>users = [(9, sample_user 9 True)], machines = [] :: (uint \<times> Machine) list\<rparr> \<and>
   counters_bound \<lparr>lastUserId = 0xFFFFFFFF, lastMachineId = 0\<rparr>
       \<lparr>users = [(0, sample_user 0 True), (5, sample_user 5 True)], machines = []\<rparr> \<and>
   Load sample_uLoad sample_mLoad initial_statics
      (snd (Save sample_uSave sample_mSave \<lparr>lastUserId = 0xFFFFFFFF, lastMachineId = 0\<rparr>
          \<lparr>users = [(0, sample_user 0 True), (5, sample_user 5 True)], machines = []\<rparr> []))
     = Some (\<lparr>users = [(0, sample_user 0 True), (5, sample_user 5 True)], machines = []\<rparr>,
            \<lparr>lastUserId = 0, lastMachineId = 0\<rparr>, []) \<and>
   \<not> counters_bound \<lparr>lastUserId = 0, lastMachineId = 0\<rparr>
       \<lparr>users = [(0, sample_user 0 True), (5, sample_user 5 True)],
        machines = [] :: (uint \<times> Machine) list\<rparr>"
  by (simp add: empty_snapshot_loads restamped_snapshot_loads wrapped_snapshot_loads)
    (simp add: AddUser_def counters_bound_def initial_statics_def new_GridManager_def
      sample_user_def word_le_nat_alt)


section \<open>Counters shared by all managers\<close>

text \<open>
  C10. The counters belong to the process, not to a manager: a zero-id \<^verbatim>\<open>AddUser\<close> on one
  manager returns \<open>n\<close>, the counter after its increment, and a zero-id \<^verbatim>\<open>AddUser\<close> that
  follows on any other manager returns \<open>n + 1\<close> (in 32-bit arithmetic); likewise for
  \<^verbatim>\<open>AddMachine\<close>. What \<^verbatim>\<open>Load\<close> returns and leaves in the counters does not depend on the
  counters before it, and after the load of a snapshot (under the assumptions of C4) the
  counters are the saved ones for every manager: the next zero-id registration on any
  manager returns the saved counter plus one.
\<close>

theorem counters_shared_by_managers:
  fixes gm :: "'u GridManager" and uLoad :: "ByteBuffer \<Rightarrow> ('u User \<times> ByteBuffer) option"
    and gm1 gm2 :: "'v GridManager"
  shows
  "(userId u1 = 0 \<and> userId u2 = 0 \<longrightarrow>
      (case AddUser st gm1 (Some u1) of (n, st', gm1') \<Rightarrow>
         n = lastUserId st + 1 \<and> fst (AddUser st' gm2 (Some u2)) = n + 1)) \<and>
   (machineId m1 = 0 \<and> machineId m2 = 0 \<longrightarrow>
      (case AddMachine st gm1 (Some m1) of (n, st', gm1') \<Rightarrow>
         n = lastMachineId st + 1 \<and> fst (AddMachine st' gm2 (Some m2)) = n + 1)) \<and>
   Load uLoad mLoad st1 bb = Load uLoad mLoad st2 bb \<and>
   ((\<forall>u rest. \<exists>u'. uLoad (uSave u @ rest) = Some (u', rest) \<and> userId u' = userId u) \<and>
    (\<forall>m rest. \<exists>m'. mLoad (mSave m @ rest) = Some (m', rest) \<and> machineId m' = machineId m) \<and>
    users_ok (users gm) \<and> machines_ok (machines gm) \<longrightarrow>
      (case Load uLoad mLoad st0 (snd (Save uSave mSave st gm []) @ rest) of
         None \<Rightarrow> False
       | Some (gmL, stL, rest') \<Rightarrow>
           stL = st \<and>
           (userId u1 = 0 \<longrightarrow> fst (AddUser stL gm1 (Some u1)) = lastUserId st + 1) \<and>
           (machineId m1 = 0 \<longrightarrow> fst (AddMachine stL gm1 (Some m1)) = lastMachineId st + 1)))"
proof (intro conjI impI)
  assume "userId u1 = 0 \<and> userId u2 = 0"
  then show "case AddUser st gm1 (Some u1) of (n, st', gm1') \<Rightarrow>
         n = lastUserId st + 1 \<and> fst (AddUser st' gm2 (Some u2)) = n + 1"
    by (simp add: AddUser_zero)
next
  assume "machineId m1 = 0 \<and> machineId m2 = 0"
  then show "case AddMachine st gm1 (Some m1) of (n, st', gm1') \<Rightarrow>
         n = lastMachineId st + 1 \<and> fst (AddMachine st' gm2 (Some m2)) = n + 1"
    by (simp add: AddMachine_zero)
next
  show "Load uLoad mLoad st1 bb = Load uLoad mLoad st2 bb"
    by (rule Load_ignores_statics)
next
  assume h: "(\<forall>u rest. \<exists>u'. uLoad (uSave u @ rest) = Some (u', rest) \<and> userId u' = userId u) \<and>
    (\<forall>m rest. \<exists>m'. mLoad (mSave m @ rest) = Some (m', rest) \<and> machineId m' = machineId m) \<and>
    users_ok (users gm) \<and> machines_ok (machines gm)"
  from h have cu: "\<forall>u rest. \<exists>u'. uLoad (uSave u @ rest) = Some (u', rest) \<and> userId u' = userId u"
    by (rule conjunct1)
  from h have cm: "\<forall>m rest. \<exists>m'. mLoad (mSave m @ rest) = Some (m', rest) \<and> machineId m' = machineId m"
    by (rule conjunct2 [THEN conjunct1])
  from h have uok: "users_ok (users gm)"
    by (rule conjunct2 [THEN conjunct2, THEN conjunct1])
  from h have mok: "machines_ok (machines gm)"
    by (rule conjunct2 [THEN conjunct2, THEN conjunct2])
  from Load_Save [OF cu cm uok mok, of st0 st rest] obtain gmL where
    run: "Load uLoad mLoad st0 (snd (Save uSave mSave st gm []) @ rest) = Some (gmL, st, rest)"
    by (elim exE conjE)
  have a: "userId u1 = 0 \<longrightarrow> fst (AddUser st gm1 (Some u1)) = lastUserId st + 1"
    by (simp add: AddUser_zero)
  have b: "machineId m1 = 0 \<longrightarrow> fst (AddMachine st gm1 (Some m1)) = lastMachineId st + 1"
    by (simp add: AddMachine_zero)
  from a b show "case Load uLoad mLoad st0 (snd (Save uSave mSave st gm []) @ rest) of
         None \<Rightarrow> False
       | Some (gmL, stL, rest') \<Rightarrow>
           stL = st \<and>
           (userId u1 = 0 \<longrightarrow> fst (AddUser stL gm1 (Some u1)) = lastUserId st + 1) \<and>
           (machineId m1 = 0 \<longrightarrow> fst (AddMachine stL gm1 (Some m1)) = lastMachineId st + 1)"
    by (simp only: run option.case prod.case simp_thms)
qed


text \<open>
  In a fresh process a user added to an empty manager gets id 1 and a user then added to
  another manager gets id 2; after the snapshot with counters 2 and 1 is loaded, a user
  added to a manager that existed before gets id 3.
\<close>

theorem counters_shared_by_managers_witness:
  "userId (sample_user 0 True) = 0 \<and> userId (sample_user 0 False) = 0 \<and>
   machineId (sample_machine 0 1 0 0) = 0 \<and> machineId (sample_machine 0 2 0 0) = 0 \<and>
   AddUser initial_statics (new_GridManager :: bool GridManager) (Some (sample_user 0 True))
     = (1, \<lparr>lastUserId = 1, lastMachineId = 0\<rparr>,
        \<lparr>users = [(1, sample_user 1 True)], machines = []\<rparr>) \<and>
   AddUser \<lparr>lastUserId = 1, lastMachineId = 0\<rparr>
       \<lparr>users = [(7, sample_user 7 True)], machines = []\<rparr> (Some (sample_user 0 False))
     = (2, \<lparr>lastUserId = 2, lastMachineId = 0\<rparr>,
        \<lparr>users = [(2, sample_user 2 False), (7, sample_user 7 True)], machines = []\<rparr>) \<and>
   (\<forall>u rest. \<exists>u'. sample_uLoad (sample_uSave u @ rest) = Some (u', rest) \<and> userId u' = userId u) \<and>
   (\<forall>m rest. \<exists>m'. sample_mLoad (sample_mSave m @ rest) = Some (m', rest) \<and>
       machineId m' = machineId m) \<and>
   users_ok [(1 :: uint, sample_user 1 True), (2, sample_user 2 False)] \<and>
   machines_ok [(1 :: uint, sample_machine 1 0 0 0)] \<and>
   Load sample_uLoad sample_mLoad initial_statics
       (snd (Save sample_uSave sample_mSave \<lparr>lastUserId = 2, lastMachineId = 1\<rparr>
          \<lparr>users = [(1, sample_user 1 True), (2, sample_user 2 False)],
           machines = [(1, sample_machine 1 0 0 0)]\<rparr> []) @ [])
     = Some (\<lparr>users = [(1, sample_user 1 True), (2, sample_user 2 False)],
             machines = [(1, sample_machine 1 0 0 0)]\<rparr>,
            \<lparr>lastUserId = 2, lastMachineId = 1\<rparr>, []) \<and>
   fst (AddUser \<lparr>lastUserId = 2, lastMachineId = 1\<rparr>
          (new_GridManager :: bool GridManager) (Some (sample_user 0 True))) = 3"
  using counters_shared_by_managers [where uLoad = sample_uLoad and uSave = sample_uSave
      and mLoad = sample_mLoad and mSave = sample_mSave and ?st0.0 = initial_statics
      and st = "\<lparr>lastUserId = 2, lastMachineId = 1\<rparr>" and rest = "[]"
      and ?u1.0 = "sample_user 0 True" and ?u2.0 = "sample_user 0 False"
      and ?m1.0 = "sample_machine 0 1 0 0" and ?m2.0 = "sample_machine 0 2 0 0"
      and ?gm1.0 = "new_GridManager :: bool GridManager"
      and ?gm2.0 = "\<lparr>users = [(7, sample_user 7 True)], machines = []\<rparr>"
      and gm = "\<lparr>users = [(1, sample_user 1 True), (2, sample_user 2 False)],
           machines = [(1, sample_machine 1 0 0 0)]\<rparr>"]
    sample_user_codec sample_machine_codec sample_registry_ok
    sample_snapshot_loads [of initial_statics]
  by (simp add: AddUser_def sample_ids initial_statics_def new_GridManager_def)
    (simp add: sample_user_def)


section \<open>The registry invariant is kept\<close>

text \<open>
  The invariant assumed of the registries is the one the registry operations keep, as
  long as a zero-id registration does not wrap the counter around to the sentinel 0.
\<close>

lemma registry_invariant_kept:
  "(users_ok (users gm) \<and> userId u \<noteq> 0 \<longrightarrow>
      users_ok (users (snd (snd (AddUser st gm (Some u)))))) \<and>
   (users_ok (users gm) \<and> userId u = 0 \<and> lastUserId st \<noteq> - 1 \<longrightarrow>
      users_ok (users (snd (snd (AddUser st gm (Some u)))))) \<and>
   (users_ok (users gm) \<longrightarrow> users_ok (users (snd (RemoveUser gm k)))) \<and>
   (machines_ok (machines gm) \<and> machineId m \<noteq> 0 \<longrightarrow>
      machines_ok (machines (snd (snd (AddMachine st gm (Some m)))))) \<and>
   (machines_ok (machines gm) \<and> machineId m = 0 \<and> lastMachineId st \<noteq> - 1 \<longrightarrow>
      machines_ok (machines (snd (snd (AddMachine st gm (Some m)))))) \<and>
   (machines_ok (machines gm) \<longrightarrow> machines_ok (machines (snd (RemoveMachine gm k))))"
proof -
  have nz: "c + 1 \<noteq> 0" if "c \<noteq> - 1" for c :: uint
    using that max_word_wrap [of c] by auto
  show ?thesis
    by (auto simp: users_ok_def machines_ok_def AddUser_def AddMachine_def RemoveUser_def
        RemoveMachine_def Let_def is_map_map_assign is_map_map_erase nz
        split: option.splits intro!: list_all_map_assign list_all_map_erase)
qed

end
